theory Spec2Isabelle
  imports Main
begin

chapter \<open>The generator\<close>

section \<open>Grid, coordinates and Python list indexing\<close>

text \<open>
  The generator of \<^verbatim>\<open>src/world_gen/GenerateMap.py\<close> works on \<^verbatim>\<open>array\<close>, a list of
  rows of one-character strings: \<^verbatim>\<open>" "\<close> (empty), \<^verbatim>\<open>"w"\<close> (wall) and \<^verbatim>\<open>"b"\<close> (base).
  A position is the two-element list \<^verbatim>\<open>[x, y]\<close> and is read as \<^verbatim>\<open>array[y][x]\<close>.
  Python integers are unbounded, so coordinates are \<^typ>\<open>int\<close>.
\<close>

datatype cell = Empty | Wall | Base

datatype error = IndexError | ValueError | OverflowError

type_synonym coord = "int \<times> int"

type_synonym grid = "cell list list"

text \<open>
  Python's \<^verbatim>\<open>xs[i]\<close>: an index from \<^verbatim>\<open>-len(xs)\<close> to \<^verbatim>\<open>-1\<close> counts from the end,
  anything outside \<^verbatim>\<open>-len(xs) .. len(xs) - 1\<close> raises IndexError.
\<close>

definition py_index :: "nat \<Rightarrow> int \<Rightarrow> nat option" where
  "py_index n i =
     (if 0 \<le> i \<and> i < int n then Some (nat i)
      else if - int n \<le> i \<and> i < 0 then Some (nat (i + int n))
      else None)"

text \<open>\<^verbatim>\<open>array[p[1]][p[0]]\<close>\<close>

definition getCell :: "grid \<Rightarrow> coord \<Rightarrow> error + cell" where
  "getCell array p =
     (case py_index (length array) (snd p) of
        None \<Rightarrow> Inl IndexError
      | Some j \<Rightarrow>
          (case py_index (length (array ! j)) (fst p) of
             None \<Rightarrow> Inl IndexError
           | Some i \<Rightarrow> Inr (array ! j ! i)))"

text \<open>\<^verbatim>\<open>array[p[1]][p[0]] = v\<close>; the rows are separate lists, so only one row changes.\<close>

definition setCell :: "grid \<Rightarrow> coord \<Rightarrow> cell \<Rightarrow> error + grid" where
  "setCell array p v =
     (case py_index (length array) (snd p) of
        None \<Rightarrow> Inl IndexError
      | Some j \<Rightarrow>
          (case py_index (length (array ! j)) (fst p) of
             None \<Rightarrow> Inl IndexError
           | Some i \<Rightarrow> Inr (array[j := (array ! j)[i := v]])))"

text \<open>\<^verbatim>\<open>len(array[0])\<close>, which raises IndexError on an array without rows.\<close>

definition rowLen :: "grid \<Rightarrow> error + int" where
  "rowLen array = (case array of [] \<Rightarrow> Inl IndexError | row # _ \<Rightarrow> Inr (int (length row)))"

section \<open>The random source\<close>

text \<open>
  The module's global random generator is an explicit, endless supply of naturals.
  \<^verbatim>\<open>random.randint(a, b)\<close> raises ValueError on an empty range and otherwise returns a
  value of \<^verbatim>\<open>a .. b\<close> (both included): the next natural of the supply, reduced into the
  range, so that every value of the range is the outcome for some supply.
\<close>

type_synonym rng = "nat \<Rightarrow> nat"

definition randint :: "int \<Rightarrow> int \<Rightarrow> rng \<Rightarrow> error + (int \<times> rng)" where
  "randint a b rs =
     (if b < a then Inl ValueError
      else Inr (a + int (rs 0) mod (b - a + 1), \<lambda>n. rs (Suc n)))"

section \<open>Nodes of the partition tree\<close>

text \<open>
  Class \<^verbatim>\<open>node\<close>. \<^verbatim>\<open>shape\<close> is \<^verbatim>\<open>[[xMin, yMin], [xMax, yMax]]\<close>; \<^verbatim>\<open>wall\<close> is \<^verbatim>\<open>None\<close>
  until the node is split. The fields \<^verbatim>\<open>parent\<close>, \<^verbatim>\<open>left\<close> and \<^verbatim>\<open>right\<close> are the
  structure of the tree below: \<^verbatim>\<open>splitNode\<close> sets both children at once, so a node has
  none or two.
\<close>

record node =
  shape :: "coord \<times> coord"
  wall :: "coord list option"
  unusableWall :: "coord list"
  wallParts :: "coord list list"
  basePresent :: bool
  basePossible :: bool
  outside :: bool

datatype tree = Leaf node | Split node tree tree

fun info :: "tree \<Rightarrow> node" where
  "info (Leaf n) = n"
| "info (Split n l r) = n"

text \<open>
  \<^verbatim>\<open>node.__init__(parent, xMin, xMax, yMin, yMax, array)\<close>. The test for the outside
  is an \<^verbatim>\<open>or\<close> chain, evaluated left to right: \<^verbatim>\<open>len(array[0])\<close> is only read when
  neither \<^verbatim>\<open>xMin\<close> nor \<^verbatim>\<open>yMin\<close> is 0.
\<close>

definition node_init :: "int \<Rightarrow> int \<Rightarrow> int \<Rightarrow> int \<Rightarrow> grid \<Rightarrow> error + node" where
  "node_init xMin xMax yMin yMax array =
     (let possible = ((xMax - xMin) - 2 > 20 \<and> (yMax - yMin) - 2 > 20);
          mk = (\<lambda>out. \<lparr>shape = ((xMin, yMin), (xMax, yMax)), wall = None, unusableWall = [],
                        wallParts = [], basePresent = False, basePossible = possible,
                        outside = out\<rparr>)
      in if xMin = 0 \<or> yMin = 0 then Inr (mk True)
         else (case rowLen array of
                 Inl e \<Rightarrow> Inl e
               | Inr w \<Rightarrow> Inr (mk (xMax = w - 1 \<or> yMax = int (length array)))))"

text \<open>\<^verbatim>\<open>getBounds\<close>: \<^verbatim>\<open>xMin, yMin, xMax, yMax\<close>.\<close>

definition xMin_of :: "node \<Rightarrow> int" where "xMin_of n = fst (fst (shape n))"
definition yMin_of :: "node \<Rightarrow> int" where "yMin_of n = snd (fst (shape n))"
definition xMax_of :: "node \<Rightarrow> int" where "xMax_of n = fst (snd (shape n))"
definition yMax_of :: "node \<Rightarrow> int" where "yMax_of n = snd (snd (shape n))"

section \<open>The empty world\<close>

text \<open>
  \<^verbatim>\<open>createEmptyWorld\<close>: 200 rows (index \<open>i\<close>, the y axis) of 250 cells (index \<open>j\<close>),
  wall on the outer ring. The two loops are written for any width and height; the
  source's world is the one of 250 by 200.
\<close>

definition emptyWorld :: "nat \<Rightarrow> nat \<Rightarrow> grid" where
  "emptyWorld w h =
     map (\<lambda>i. map (\<lambda>j. if i = 0 \<or> i = h - 1 \<or> j = 0 \<or> j = w - 1 then Wall else Empty)
                 [0..<w])
         [0..<h]"

definition createEmptyWorld :: grid where
  "createEmptyWorld = emptyWorld 250 200"

section \<open>Errors as values\<close>

text \<open>An exception ends the run: the first error of a sequence of steps is its result.\<close>

definition bindE :: "error + 'a \<Rightarrow> ('a \<Rightarrow> error + 'b) \<Rightarrow> error + 'b" where
  "bindE m f = (case m of Inl e \<Rightarrow> Inl e | Inr x \<Rightarrow> f x)"

lemma bindE_simps [simp]:
  "bindE (Inl e) f = Inl e"
  "bindE (Inr x) f = f x"
  by (simp_all add: bindE_def)

lemma bindE_cong [fundef_cong]:
  "m = m' \<Longrightarrow> (\<And>x. m' = Inr x \<Longrightarrow> f x = f' x) \<Longrightarrow> bindE m f = bindE m' f'"
  by (auto simp: bindE_def split: sum.splits)


section \<open>Doors\<close>

text \<open>
  A loop that assigns the same value at the listed positions, one after the other:
  \<^verbatim>\<open>array[p[1]][p[0]] = v\<close> for each \<^verbatim>\<open>p\<close>.
\<close>

fun setCells :: "cell \<Rightarrow> coord list \<Rightarrow> grid \<Rightarrow> error + grid" where
  "setCells v [] array = Inr array"
| "setCells v (p # ps) array = bindE (setCell array p v) (setCells v ps)"

text \<open>
  \<^verbatim>\<open>openDoor(wall, array)\<close>. A wall of more than 16 positions gets a door at a random
  offset \<open>r\<close>: the loop runs over \<^verbatim>\<open>i\<close> in \<^verbatim>\<open>range(0, 15)\<close> and clears \<^verbatim>\<open>wall[i + r]\<close>
  where \<^verbatim>\<open>i + r < len(wall)\<close>. A shorter wall loses \<^verbatim>\<open>wall[i]\<close> for \<^verbatim>\<open>i\<close> in
  \<^verbatim>\<open>range(1, len(wall) - 1)\<close>.
\<close>

definition doorCells :: "coord list \<Rightarrow> int \<Rightarrow> coord list" where
  "doorCells w r =
     map (\<lambda>i. w ! nat (int i + r)) (filter (\<lambda>i. int i + r < int (length w)) [0..<15])"

definition centralCells :: "coord list \<Rightarrow> coord list" where
  "centralCells w = map (\<lambda>i. w ! i) [1..<length w - 1]"

definition openDoor :: "coord list \<Rightarrow> grid \<Rightarrow> rng \<Rightarrow> error + (grid \<times> rng)" where
  "openDoor w array rs =
     (if length w > 16 then
        bindE (randint 1 (int (length w) - 16) rs) (\<lambda>(r, rs').
        bindE (setCells Empty (doorCells w r) array) (\<lambda>array'.
        Inr (array', rs')))
      else
        bindE (setCells Empty (centralCells w) array) (\<lambda>array'.
        Inr (array', rs)))"

text \<open>
  The first loop of \<^verbatim>\<open>addDoorToWall\<close>: the wall is cut at the unusable positions;
  \<^verbatim>\<open>currentPart\<close> collects the positions since the last cut and \<^verbatim>\<open>wallParts\<close> the
  finished parts.
\<close>

fun splitParts :: "coord list \<Rightarrow> coord list \<Rightarrow> coord list \<Rightarrow> coord list list \<Rightarrow> coord list list" where
  "splitParts unusable [] currentPart parts =
     (if currentPart \<noteq> [] then parts @ [currentPart] else parts)"
| "splitParts unusable (p # ps) currentPart parts =
     (if p \<notin> set unusable then splitParts unusable ps (currentPart @ [p]) parts
      else if currentPart \<noteq> [] then splitParts unusable ps [] (parts @ [currentPart])
      else splitParts unusable ps currentPart parts)"

definition partsOfWall :: "coord list \<Rightarrow> coord list \<Rightarrow> coord list list" where
  "partsOfWall w unusable = splitParts unusable w [] []"

definition largePartsOf :: "coord list list \<Rightarrow> coord list list" where
  "largePartsOf parts = filter (\<lambda>part. length part \<ge> 15) parts"

text \<open>
  The loop over \<^verbatim>\<open>range(len(largeParts))\<close> after the first door: one draw of
  \<^verbatim>\<open>random.randint(0, 2)\<close> for every large part, and a door where the draw is 0 and the
  part is not the one that already has its door.
\<close>

fun extraDoors :: "coord list list \<Rightarrow> int \<Rightarrow> nat list \<Rightarrow> grid \<Rightarrow> rng \<Rightarrow> error + (grid \<times> rng)" where
  "extraDoors largeParts w1 [] array rs = Inr (array, rs)"
| "extraDoors largeParts w1 (i # is) array rs =
     bindE (randint 0 2 rs) (\<lambda>(c, rs1).
       if c = 0 \<and> int i \<noteq> w1 then
         bindE (openDoor (largeParts ! i) array rs1) (\<lambda>(array', rs2).
         extraDoors largeParts w1 is array' rs2)
       else extraDoors largeParts w1 is array rs1)"

text \<open>
  The loop that picks a part when no part is large. The source assigns
  \<^verbatim>\<open>longest = len(wallParts)\<close>, the number of parts, where it selects part \<open>i\<close>.
  The result is \<^verbatim>\<open>selected\<close>.
\<close>

fun selectLoop :: "coord list list \<Rightarrow> nat list \<Rightarrow> int \<Rightarrow> int \<Rightarrow> int" where
  "selectLoop parts [] longest selected = selected"
| "selectLoop parts (i # is) longest selected =
     (if int (length (parts ! i)) > longest
      then selectLoop parts is (int (length parts)) (int i)
      else selectLoop parts is longest selected)"

definition selectPart :: "coord list list \<Rightarrow> int" where
  "selectPart parts = selectLoop parts [0..<length parts] (-1) (-1)"

definition addDoorToWall :: "coord list \<Rightarrow> coord list \<Rightarrow> grid \<Rightarrow> rng \<Rightarrow> error + (grid \<times> rng)" where
  "addDoorToWall w unusable array rs =
     (let parts = partsOfWall w unusable;
          largeParts = largePartsOf parts
      in if length largeParts > 0 then
           bindE (randint 0 (int (length largeParts) - 1) rs) (\<lambda>(w1, rs1).
           bindE (openDoor (largeParts ! nat w1) array rs1) (\<lambda>(array1, rs2).
           extraDoors largeParts w1 [0..<length largeParts] array1 rs2))
         else
           (let selected = selectPart parts
            in if selected \<noteq> -1 then openDoor (parts ! nat selected) array rs
               else Inr (array, rs)))"

text \<open>
  \<^verbatim>\<open>addDoors(rootNode, array)\<close>: the children first, then the node's own wall, where
  it has one.
\<close>

definition addDoorsHere :: "node \<Rightarrow> grid \<Rightarrow> rng \<Rightarrow> error + (grid \<times> rng)" where
  "addDoorsHere n array rs =
     (case wall n of
        None \<Rightarrow> Inr (array, rs)
      | Some w \<Rightarrow> addDoorToWall w (unusableWall n) array rs)"

fun addDoors :: "tree \<Rightarrow> grid \<Rightarrow> rng \<Rightarrow> error + (grid \<times> rng)" where
  "addDoors (Leaf n) array rs = addDoorsHere n array rs"
| "addDoors (Split n l r) array rs =
     bindE (addDoors l array rs) (\<lambda>(array1, rs1).
     bindE (addDoors r array1 rs1) (\<lambda>(array2, rs2).
     addDoorsHere n array2 rs2))"

section \<open>Splitting\<close>

text \<open>
  Python's \<^verbatim>\<open>float\<close> is the IEEE double: 53 significant bits, rounded to nearest with
  ties to the even significand. \<open>bitlen n\<close> is the number of bits of \<open>n\<close> and
  \<open>round53 n\<close> the natural number with at most 53 significant bits nearest to \<open>n\<close>.
\<close>

fun bitlen :: "nat \<Rightarrow> nat" where
  "bitlen n = (if n = 0 then 0 else Suc (bitlen (n div 2)))"

declare bitlen.simps [simp del]

definition round53 :: "nat \<Rightarrow> nat" where
  "round53 n =
     (let b = bitlen n
      in if b \<le> 53 then n
         else (let k = b - 53; q = n div 2 ^ k; r = n mod 2 ^ k;
                   q' = (if 2 * r > 2 ^ k \<or> (2 * r = 2 ^ k \<and> odd q) then q + 1 else q)
               in q' * 2 ^ k))"

text \<open>
  An integer that meets a float in a product is converted to a float first: the
  magnitude of \<^verbatim>\<open>float(s)\<close>, or OverflowError where it is beyond the largest double.
\<close>

definition floatMag :: "int \<Rightarrow> error + nat" where
  "floatMag s =
     (let m = round53 (nat \<bar>s\<bar>)
      in if m \<ge> 2 ^ 1024 then Inl OverflowError else Inr m)"

text \<open>
  \<^verbatim>\<open>int(size * modifier)\<close> with \<^verbatim>\<open>modifier = 0.35\<close>. The double nearest to 0.35 is
  6305039478318694 / 2^54. The product of the two doubles is rounded to a double and
  \<^verbatim>\<open>int\<close> cuts off its fraction (towards zero).
\<close>

definition margin :: "int \<Rightarrow> error + int" where
  "margin s =
     bindE (floatMag s) (\<lambda>m.
       let p = round53 (m * 6305039478318694); v = int (p div 2 ^ 54)
       in Inr (if s < 0 then - v else v))"

text \<open>
  \<^verbatim>\<open>a > 1.5 * b\<close> for integers \<open>a\<close> and \<open>b\<close>: the product \<^verbatim>\<open>1.5 * float(b)\<close> is a
  double (three halves of the magnitude, rounded; infinite from 2^1024 on), and Python
  compares an integer with a float exactly.
\<close>

definition exceeds :: "int \<Rightarrow> int \<Rightarrow> error + bool" where
  "exceeds a b =
     bindE (floatMag b) (\<lambda>m.
       let p = round53 (3 * m)
       in Inr (if p \<ge> 2 ^ 1025 then b < 0
               else 2 * a > (if b < 0 then - int p else int p)))"

text \<open>
  The wall positions that the two loops of \<^verbatim>\<open>splitNode\<close> append: \<^verbatim>\<open>[xPos, r]\<close> for
  \<^verbatim>\<open>xPos\<close> in \<^verbatim>\<open>range(xMin, xMax + 1)\<close>, and \<^verbatim>\<open>[r, yPos]\<close> for \<^verbatim>\<open>yPos\<close> in
  \<^verbatim>\<open>range(yMin, yMax + 1)\<close>.
\<close>

definition hWall :: "int \<Rightarrow> int \<Rightarrow> int \<Rightarrow> coord list" where
  "hWall xMin xMax r = map (\<lambda>xPos. (xPos, r)) [xMin..xMax]"

definition vWall :: "int \<Rightarrow> int \<Rightarrow> int \<Rightarrow> coord list" where
  "vWall yMin yMax r = map (\<lambda>yPos. (r, yPos)) [yMin..yMax]"

text \<open>
  \<^verbatim>\<open>splitNode(n, array)\<close>. The four bounds are computed first, then the direction is
  drawn, even where the shape of the room then overrides it. The result is the node
  with its wall and its two new children, and the array with the wall written into it.
\<close>

definition splitNode :: "node \<Rightarrow> grid \<Rightarrow> rng \<Rightarrow> error + (tree \<times> grid \<times> rng)" where
  "splitNode n array rs =
     (let xMin = xMin_of n; yMin = yMin_of n; xMax = xMax_of n; yMax = yMax_of n;
          size0 = xMax - xMin; size1 = yMax - yMin
      in bindE (margin size1) (\<lambda>m1.
         bindE (margin size0) (\<lambda>m0.
         let bounds00 = m1 + yMin; bounds01 = yMax - m1;
             bounds10 = m0 + xMin; bounds11 = xMax - m0
         in bindE (randint 0 1 rs) (\<lambda>(d0, rs1).
            bindE (exceeds size0 size1) (\<lambda>wide.
            bindE (exceeds size1 size0) (\<lambda>tall.
            let d1 = (if wide then 1 else d0);
                direction = (if tall then 0 else d1)
            in bindE (randint (if direction = 0 then bounds00 else bounds10)
                              (if direction = 0 then bounds01 else bounds11) rs1) (\<lambda>(r, rs2).
               if direction = 0 then
                 bindE (node_init xMin xMax yMin r array) (\<lambda>left.
                 bindE (node_init xMin xMax r yMax array) (\<lambda>right.
                 bindE (setCells Wall (hWall xMin xMax r) array) (\<lambda>array'.
                 Inr (Split (n\<lparr>wall := Some (hWall xMin xMax r)\<rparr>) (Leaf left) (Leaf right),
                      array', rs2))))
               else
                 bindE (node_init xMin r yMin yMax array) (\<lambda>left.
                 bindE (node_init r xMax yMin yMax array) (\<lambda>right.
                 bindE (setCells Wall (vWall yMin yMax r) array) (\<lambda>array'.
                 Inr (Split (n\<lparr>wall := Some (vWall yMin yMax r)\<rparr>) (Leaf left) (Leaf right),
                      array', rs2)))))))))))"

text \<open>
  \<^verbatim>\<open>setWall\<close> hands the first and the last position of a wall that is not empty to
  \<^verbatim>\<open>adjustWall\<close> of the parent, which appends both to its unusable positions and hands
  them on to its own parent.
\<close>

definition endPoints :: "coord list \<Rightarrow> coord list" where
  "endPoints w = (if length w > 0 then [w ! 0, w ! (length w - 1)] else [])"

text \<open>
  \<^verbatim>\<open>splitDepth(rootNode, array)\<close>: a node without children is split, otherwise both
  children are treated in turn. The second component of the result lists the end points
  that the new walls below the node hand upwards, in the order of the calls of
  \<^verbatim>\<open>adjustWall\<close>: every node above appends them. A node that is split itself hands up
  the end points of its own wall; it does not append them.
\<close>

fun splitDepth :: "tree \<Rightarrow> grid \<Rightarrow> rng \<Rightarrow> error + (tree \<times> coord list \<times> grid \<times> rng)" where
  "splitDepth (Leaf n) array rs =
     bindE (splitNode n array rs) (\<lambda>(t, array', rs').
     Inr (t, (case wall (info t) of None \<Rightarrow> [] | Some w \<Rightarrow> endPoints w), array', rs'))"
| "splitDepth (Split n l r) array rs =
     bindE (splitDepth l array rs) (\<lambda>(l', ul, array1, rs1).
     bindE (splitDepth r array1 rs1) (\<lambda>(r', ur, array2, rs2).
     Inr (Split (n\<lparr>unusableWall := unusableWall n @ ul @ ur\<rparr>) l' r', ul @ ur, array2, rs2)))"

text \<open>The loop \<^verbatim>\<open>for i in range(4): array = splitDepth(root, array)\<close>, for any count.\<close>

fun splitTimes :: "nat \<Rightarrow> tree \<Rightarrow> grid \<Rightarrow> rng \<Rightarrow> error + (tree \<times> grid \<times> rng)" where
  "splitTimes 0 t array rs = Inr (t, array, rs)"
| "splitTimes (Suc k) t array rs =
     bindE (splitDepth t array rs) (\<lambda>(t', u, array', rs'). splitTimes k t' array' rs')"

text \<open>The tree and the grid before the doors are cut: the first half of \<^verbatim>\<open>generateWorld\<close>.\<close>

definition splitWorld :: "rng \<Rightarrow> error + (tree \<times> grid \<times> rng)" where
  "splitWorld rs =
     (let array = createEmptyWorld
      in bindE (rowLen array) (\<lambda>w.
         bindE (node_init 0 (w - 1) 0 (int (length array) - 1) array) (\<lambda>root.
         splitTimes 4 (Leaf root) array rs)))"

text \<open>\<^verbatim>\<open>generateWorld()\<close>: the array and the root node.\<close>

definition generateWorld :: "rng \<Rightarrow> error + (grid \<times> tree \<times> rng)" where
  "generateWorld rs =
     bindE (splitWorld rs) (\<lambda>(root, array, rs1).
     bindE (addDoors root array rs1) (\<lambda>(array', rs2).
     Inr (array', root, rs2)))"

section \<open>Bases\<close>

text \<open>
  \<^verbatim>\<open>children[c]\<close> on the pair of children: Python's indexing of a two-element tuple.
  The node objects are shared and have no name of their own here, so a node is given by
  its path from the root (\<open>False\<close> for the left child, \<open>True\<close> for the right one);
  the result is the step taken and the child.
\<close>

type_synonym path = "bool list"

definition pickChild :: "tree \<Rightarrow> tree \<Rightarrow> int \<Rightarrow> error + (bool \<times> tree)" where
  "pickChild l r c =
     (case py_index 2 c of
        None \<Rightarrow> Inl IndexError
      | Some k \<Rightarrow> Inr (k \<noteq> 0, if k = 0 then l else r))"

text \<open>
  The first part of an attempt of \<^verbatim>\<open>addBase\<close>: from the root, the two child choices of
  the quadrant, as far as there are children.
\<close>

definition quadrantNode :: "tree \<Rightarrow> int \<times> int \<Rightarrow> error + (path \<times> tree)" where
  "quadrantNode root q =
     (case root of
        Leaf n \<Rightarrow> Inr ([], root)
      | Split n l r \<Rightarrow>
          bindE (pickChild l r (fst q)) (\<lambda>(c1, t1).
            case t1 of
              Leaf n1 \<Rightarrow> Inr ([c1], t1)
            | Split n1 l1 r1 \<Rightarrow>
                bindE (pickChild l1 r1 (snd q)) (\<lambda>(c2, t2).
                Inr ([c1, c2], t2))))"

text \<open>
  The loop \<^verbatim>\<open>while children[0] != None and children[1] != None\<close>: one draw of
  \<^verbatim>\<open>random.randint(0, 1)\<close> for every level, down to a leaf.
\<close>

fun descend :: "tree \<Rightarrow> rng \<Rightarrow> error + (path \<times> node \<times> rng)" where
  "descend (Leaf n) rs = Inr ([], n, rs)"
| "descend (Split n l r) rs =
     bindE (randint 0 1 rs) (\<lambda>(c, rs1).
     bindE (descend (if c = 0 then l else r) rs1) (\<lambda>(p, leaf, rs2).
     Inr ((c \<noteq> 0) # p, leaf, rs2)))"

text \<open>One attempt: the quadrant drawn, and the leaf reached with its path.\<close>

definition findLeaf :: "tree \<Rightarrow> (int \<times> int) list \<Rightarrow> rng \<Rightarrow> error + (int \<times> path \<times> node \<times> rng)" where
  "findLeaf root quadrants rs =
     bindE (randint 0 (int (length quadrants) - 1) rs) (\<lambda>(rQuad, rs1).
     bindE (quadrantNode root (quadrants ! nat rQuad)) (\<lambda>(p1, t).
     bindE (descend t rs1) (\<lambda>(p2, leaf, rs2).
     Inr (rQuad, p1 @ p2, leaf, rs2))))"

text \<open>\<^verbatim>\<open>currentNode.setBase()\<close> on the node at the end of a path.\<close>

fun setBaseAt :: "path \<Rightarrow> tree \<Rightarrow> tree" where
  "setBaseAt p (Leaf n) = Leaf (n\<lparr>basePresent := True\<rparr>)"
| "setBaseAt [] (Split n l r) = Split (n\<lparr>basePresent := True\<rparr>) l r"
| "setBaseAt (c # p) (Split n l r) =
     (if c then Split n l (setBaseAt p r) else Split n (setBaseAt p l) r)"

text \<open>
  The position of the base in an accepted leaf. \<^verbatim>\<open>math.floor((xMax - xMin) / 3)\<close> is
  the integer quotient rounded down.
\<close>

definition choosePosition :: "node \<Rightarrow> rng \<Rightarrow> error + ((coord \<times> coord) \<times> rng)" where
  "choosePosition leaf rs =
     (let xMin = xMin_of leaf + 1; yMin = yMin_of leaf + 1;
          xMax = xMax_of leaf - 21; yMax = yMax_of leaf - 21;
          xThird = (xMax - xMin) div 3; yThird = (yMax - yMin) div 3
      in bindE (randint (xMin + xThird) (xMax - xThird) rs) (\<lambda>(xPos, rs1).
         bindE (randint (yMin + yThird) (yMax - yThird) rs1) (\<lambda>(yPos, rs2).
         Inr (((xPos, yPos), (xPos + 20, yPos + 20)), rs2))))"

text \<open>
  The loop \<^verbatim>\<open>while not added\<close> of \<^verbatim>\<open>addBase\<close>. It has no bound: an attempt that does
  not reach a leaf without a base, large enough and on the outside is followed by the
  next attempt. The value \<open>None\<close> stands for a loop that never ends. The result is
  the base, the quadrant used, the tree with the base recorded at the leaf, and the
  random source.
\<close>

partial_function (option) addBaseLoop ::
  "tree \<Rightarrow> (int \<times> int) list \<Rightarrow> rng \<Rightarrow>
   (error + ((coord \<times> coord) \<times> (int \<times> int) \<times> tree \<times> rng)) option" where
  "addBaseLoop root quadrants rs =
     (case findLeaf root quadrants rs of
        Inl e \<Rightarrow> Some (Inl e)
      | Inr (rQuad, p, leaf, rs1) \<Rightarrow>
          if \<not> basePresent leaf \<and> basePossible leaf \<and> outside leaf then
            (case choosePosition leaf rs1 of
               Inl e \<Rightarrow> Some (Inl e)
             | Inr (base, rs2) \<Rightarrow>
                 Some (Inr (base, quadrants ! nat rQuad, setBaseAt p root, rs2)))
          else addBaseLoop root quadrants rs1)"

declare addBaseLoop.simps [code]

text \<open>
  The two loops that write the base into the array: \<^verbatim>\<open>x\<close> over
  \<^verbatim>\<open>range(base[0][0], base[1][0] + 1)\<close> and, inside, \<^verbatim>\<open>y\<close> over
  \<^verbatim>\<open>range(base[0][1], base[1][1] + 1)\<close>.
\<close>

definition baseCells :: "coord \<times> coord \<Rightarrow> coord list" where
  "baseCells base =
     concat (map (\<lambda>x. map (\<lambda>y. (x, y)) [snd (fst base)..snd (snd base)])
                 [fst (fst base)..fst (snd base)])"

text \<open>
  The test before a position is written:
  \<^verbatim>\<open>x > 0 and x < len(array[0]) - 1 and y > 0 and y < len(array)\<close>, read left to right.
\<close>

fun markCells :: "coord list \<Rightarrow> grid \<Rightarrow> error + grid" where
  "markCells [] array = Inr array"
| "markCells (p # ps) array =
     (if fst p > 0 then
        bindE (rowLen array) (\<lambda>w.
          if fst p < w - 1 \<and> snd p > 0 \<and> snd p < int (length array)
          then bindE (setCell array p Base) (markCells ps)
          else markCells ps array)
      else markCells ps array)"

text \<open>
  \<^verbatim>\<open>addBase(root, array, quadrants)\<close>: the base, the array, the quadrant used; and the
  tree and the random source, which the source changes in place. After the loop
  \<^verbatim>\<open>base\<close> is never the empty list, so the test \<^verbatim>\<open>base != []\<close> always holds.
\<close>

definition addBase ::
  "tree \<Rightarrow> grid \<Rightarrow> (int \<times> int) list \<Rightarrow> rng \<Rightarrow>
   (error + ((coord \<times> coord) \<times> grid \<times> (int \<times> int) \<times> tree \<times> rng)) option" where
  "addBase root array quadrants rs =
     (case addBaseLoop root quadrants rs of
        None \<Rightarrow> None
      | Some (Inl e) \<Rightarrow> Some (Inl e)
      | Some (Inr (base, usedQuad, root', rs')) \<Rightarrow>
          Some (bindE (markCells (baseCells base) array) (\<lambda>array'.
                Inr (base, array', usedQuad, root', rs'))))"

text \<open>
  \<^verbatim>\<open>createBases(array, rootNode)\<close>: three calls of \<^verbatim>\<open>addBase\<close>; a quadrant that was used
  is removed from the list.
\<close>

fun createBasesLoop ::
  "nat \<Rightarrow> tree \<Rightarrow> grid \<Rightarrow> (int \<times> int) list \<Rightarrow> (coord \<times> coord) list \<Rightarrow> rng \<Rightarrow>
   (error + (grid \<times> (coord \<times> coord) list \<times> tree \<times> rng)) option" where
  "createBasesLoop 0 root array quads bases rs = Some (Inr (array, bases, root, rs))"
| "createBasesLoop (Suc k) root array quads bases rs =
     (case addBase root array quads rs of
        None \<Rightarrow> None
      | Some (Inl e) \<Rightarrow> Some (Inl e)
      | Some (Inr (base, array', used, root', rs')) \<Rightarrow>
          createBasesLoop k root' array'
            (if used \<in> set quads then remove1 used quads else quads) (bases @ [base]) rs')"

definition createBases ::
  "grid \<Rightarrow> tree \<Rightarrow> rng \<Rightarrow> (error + (grid \<times> (coord \<times> coord) list \<times> tree \<times> rng)) option" where
  "createBases array rootNode rs =
     createBasesLoop 3 rootNode array [(0, 0), (0, 1), (1, 0), (1, 1)] [] rs"

section \<open>Wall blocks\<close>

text \<open>
  The loop of \<^verbatim>\<open>generateWallParts\<close> over the positions of a wall: the runs of
  positions that hold \<^verbatim>\<open>"w"\<close> in the array.
\<close>

fun wallRuns :: "grid \<Rightarrow> coord list \<Rightarrow> coord list \<Rightarrow> coord list list \<Rightarrow> error + coord list list" where
  "wallRuns array [] part parts = Inr (if part \<noteq> [] then parts @ [part] else parts)"
| "wallRuns array (piece # ps) part parts =
     bindE (getCell array piece) (\<lambda>c.
       if c = Wall then wallRuns array ps (part @ [piece]) parts
       else if part \<noteq> [] then wallRuns array ps [] (parts @ [part])
       else wallRuns array ps part parts)"

definition partsHere :: "node \<Rightarrow> grid \<Rightarrow> error + node" where
  "partsHere n array =
     (case wall n of
        None \<Rightarrow> Inr n
      | Some w \<Rightarrow> bindE (wallRuns array w [] []) (\<lambda>parts. Inr (n\<lparr>wallParts := parts\<rparr>)))"

text \<open>\<^verbatim>\<open>generateWallParts(rootNode, array)\<close>: the children first, then the node.\<close>

fun generateWallParts :: "tree \<Rightarrow> grid \<Rightarrow> error + tree" where
  "generateWallParts (Leaf n) array = bindE (partsHere n array) (\<lambda>n'. Inr (Leaf n'))"
| "generateWallParts (Split n l r) array =
     bindE (generateWallParts l array) (\<lambda>l'.
     bindE (generateWallParts r array) (\<lambda>r'.
     bindE (partsHere n array) (\<lambda>n'.
     Inr (Split n' l' r'))))"

text \<open>
  The loop \<^verbatim>\<open>for bit in part: if bit in usedPos: part.remove(bit)\<close>. The list is changed
  while it is iterated: Python's list iterator keeps an index \<open>i\<close>, takes \<^verbatim>\<open>part[i]\<close>
  as long as \<open>i\<close> is less than the current length, and moves to \<open>i + 1\<close>;
  \<^verbatim>\<open>remove\<close> deletes the first position equal to the one given.
\<close>

function removeUsed :: "coord list \<Rightarrow> nat \<Rightarrow> coord list \<Rightarrow> coord list" where
  "removeUsed usedPos i part =
     (if i < length part then
        (if part ! i \<in> set usedPos then removeUsed usedPos (Suc i) (remove1 (part ! i) part)
         else removeUsed usedPos (Suc i) part)
      else part)"
  by pat_completeness auto
termination
proof (relation "measure (\<lambda>(usedPos, i, part). length part - i)")
  show "wf (measure (\<lambda>(usedPos, i, part). length part - i))" by simp
next
  fix usedPos :: "coord list" and i part
  assume "i < length part" "part ! i \<in> set usedPos"
  then have "part ! i \<in> set part" by simp
  then have "length (remove1 (part ! i) part) = length part - 1" by (simp add: length_remove1)
  then show "((usedPos, Suc i, remove1 (part ! i) part), usedPos, i, part)
      \<in> measure (\<lambda>(usedPos, i, part). length part - i)"
    using \<open>i < length part\<close> by simp
next
  fix usedPos :: "coord list" and i part
  assume "i < length part"
  then show "((usedPos, Suc i, part), usedPos, i, part) \<in> measure (\<lambda>(usedPos, i, part). length part - i)"
    by simp
qed

declare removeUsed.simps [simp del]

text \<open>
  The loop over the parts of a node in \<^verbatim>\<open>createAllWallBlocks\<close>. What
  \<^verbatim>\<open>WorldCreator.transformFromBounds\<close> makes of the first and the last position of a
  part is computed with decimals and floats; it is the parameter \<open>tf\<close> here.
\<close>

fun partBlocks :: "(coord \<Rightarrow> coord \<Rightarrow> 'b) \<Rightarrow> coord list list \<Rightarrow> coord list \<Rightarrow> 'b list \<Rightarrow> 'b list \<times> coord list" where
  "partBlocks tf [] usedPos wallData = (wallData, usedPos)"
| "partBlocks tf (part # parts) usedPos wallData =
     (let part' = removeUsed usedPos 0 part;
          wallData' = (if length part' > 0 then wallData @ [tf (hd part') (last part')]
                       else wallData)
      in partBlocks tf parts (usedPos @ part') wallData')"

text \<open>
  \<^verbatim>\<open>createAllWallBlocks(rootNode, usedPos)\<close>: the parts of the node, then the left
  child, then the right child.
\<close>

fun createAllWallBlocks :: "(coord \<Rightarrow> coord \<Rightarrow> 'b) \<Rightarrow> tree \<Rightarrow> coord list \<Rightarrow> 'b list \<times> coord list" where
  "createAllWallBlocks tf (Leaf n) usedPos = partBlocks tf (wallParts n) usedPos []"
| "createAllWallBlocks tf (Split n l r) usedPos =
     (case partBlocks tf (wallParts n) usedPos [] of (wallData, used0) \<Rightarrow>
      case createAllWallBlocks tf l used0 of (dataLeft, used1) \<Rightarrow>
      case createAllWallBlocks tf r used1 of (dataRight, used2) \<Rightarrow>
        ((wallData @ dataLeft) @ dataRight, used2))"

text \<open>
  \<^verbatim>\<open>generateEdges(array)\<close>: left and right for every row, then top and bottom for every
  column where the position is not in the list yet.
\<close>

definition generateEdges :: "grid \<Rightarrow> error + coord list" where
  "generateEdges array =
     bindE (rowLen array) (\<lambda>w.
       let h = int (length array);
           sides = concat (map (\<lambda>i. [(0, i), (w - 1, i)]) [0..h - 1]);
           ends = concat (map (\<lambda>i. [(i, 0), (i, h - 1)]) [0..w - 1])
       in Inr (fold (\<lambda>p positions. if p \<notin> set positions then positions @ [p] else positions)
                    ends sides))"

section \<open>Vocabulary of the properties\<close>

text \<open>
  A position inside the grid: both indices are plain, non-negative indices of the array.
\<close>

definition inGrid :: "grid \<Rightarrow> coord \<Rightarrow> bool" where
  "inGrid array p \<longleftrightarrow>
     0 \<le> snd p \<and> snd p < int (length array) \<and>
     0 \<le> fst p \<and> fst p < int (length (array ! nat (snd p)))"

text \<open>
  \<open>carves array cs array'\<close>: the two grids have the same rows lengths, the positions
  \<open>cs\<close> are empty in \<open>array'\<close> and every other position holds what it held.
\<close>

definition carves :: "grid \<Rightarrow> coord list \<Rightarrow> grid \<Rightarrow> bool" where
  "carves array cs array' \<longleftrightarrow>
     map length array' = map length array \<and>
     (\<forall>q. inGrid array q \<longrightarrow>
          getCell array' q = (if q \<in> set cs then Inr Empty else getCell array q))"

text \<open>A wall is sure to get a door when it has a large part, or parts that all have an interior.\<close>

definition doorFits :: "coord list \<Rightarrow> coord list \<Rightarrow> bool" where
  "doorFits w unusable \<longleftrightarrow>
     largePartsOf (partsOfWall w unusable) \<noteq> [] \<or>
     (partsOfWall w unusable \<noteq> [] \<and> list_all (\<lambda>part. 3 \<le> length part) (partsOfWall w unusable))"


text \<open>The nodes of a tree, and the walls of a tree lying inside the grid.\<close>

fun nodes :: "tree \<Rightarrow> node list" where
  "nodes (Leaf n) = [n]"
| "nodes (Split n l r) = n # nodes l @ nodes r"

definition wallCells :: "node \<Rightarrow> coord list" where
  "wallCells n = (case wall n of None \<Rightarrow> [] | Some w \<Rightarrow> w)"

definition wallInterior :: "node \<Rightarrow> coord list" where
  "wallInterior n = (case wall n of None \<Rightarrow> [] | Some w \<Rightarrow> centralCells w)"

definition wallsInGrid :: "grid \<Rightarrow> tree \<Rightarrow> bool" where
  "wallsInGrid array t \<longleftrightarrow> list_all (\<lambda>n. list_all (inGrid array) (wallCells n)) (nodes t)"

text \<open>Concrete inputs: a random source that always supplies 0, and a grid full of wall.\<close>

definition zeroSupply :: rng where
  "zeroSupply = (\<lambda>n. 0)"

definition wallGrid :: "nat \<Rightarrow> nat \<Rightarrow> grid" where
  "wallGrid w h = replicate h (replicate w Wall)"

text \<open>A random source that supplies 0, 1, 0, 1 and so on.\<close>

definition alternatingSupply :: rng where
  "alternatingSupply = (\<lambda>n. n mod 2)"

text \<open>A node with the given fields, for concrete trees.\<close>

definition mkNode :: "coord \<times> coord \<Rightarrow> coord list option \<Rightarrow> coord list \<Rightarrow> bool \<Rightarrow> bool \<Rightarrow> bool \<Rightarrow> node" where
  "mkNode sh w u present possible out =
     \<lparr>shape = sh, wall = w, unusableWall = u, wallParts = [], basePresent = present,
      basePossible = possible, outside = out\<rparr>"

text \<open>
  A leaf that \<^verbatim>\<open>addBase\<close> accepts; the leaves of a tree; the subtree at the end of a
  path; and a list of quadrants none of which leads to a leaf that is accepted.
\<close>

definition eligible :: "node \<Rightarrow> bool" where
  "eligible leaf \<longleftrightarrow> \<not> basePresent leaf \<and> basePossible leaf \<and> outside leaf"

fun leaves :: "tree \<Rightarrow> node list" where
  "leaves (Leaf n) = [n]"
| "leaves (Split n l r) = leaves l @ leaves r"

fun follow :: "path \<Rightarrow> tree \<Rightarrow> tree" where
  "follow [] t = t"
| "follow (c # p) (Leaf n) = Leaf n"
| "follow (c # p) (Split n l r) = follow p (if c then r else l)"

definition noEligibleLeaf :: "tree \<Rightarrow> (int \<times> int) list \<Rightarrow> bool" where
  "noEligibleLeaf root quadrants \<longleftrightarrow>
     list_all (\<lambda>q. case quadrantNode root q of
                     Inl e \<Rightarrow> False
                   | Inr (p, t) \<Rightarrow> list_all (\<lambda>n. \<not> eligible n) (leaves t)) quadrants"

text \<open>
  A world of 72 by 41 cells after two rounds of splitting (the root along \<open>x = 46\<close>,
  its left half along \<open>x = 23\<close>, its right half along \<open>y = 20\<close>), at the time of the
  third call of \<^verbatim>\<open>addBase\<close>: the two rooms on the left are large enough for a base and
  each holds one, the two rooms on the right are too low for a base.
\<close>

definition twoBasesPlaced :: tree where
  "twoBasesPlaced =
     Split (mkNode ((0, 0), (71, 40)) (Some (vWall 0 40 46))
              [(23, 0), (23, 40), (46, 20), (71, 20)] False True True)
       (Split (mkNode ((0, 0), (46, 40)) (Some (vWall 0 40 23)) [] False True True)
          (Leaf (mkNode ((0, 0), (23, 40)) None [] True True True))
          (Leaf (mkNode ((23, 0), (46, 40)) None [] True True True)))
       (Split (mkNode ((46, 0), (71, 40)) (Some (hWall 46 71 20)) [] False True True)
          (Leaf (mkNode ((46, 0), (71, 20)) None [] False False True))
          (Leaf (mkNode ((46, 20), (71, 40)) None [] False False True)))"




text \<open>
  The shape of a tree as \<^verbatim>\<open>splitNode\<close> builds it, in a grid of \<open>h\<close> rows of \<open>w\<close> cells:
  every rectangle lies in the grid, the flag \<^verbatim>\<open>basePossible\<close> is the one the
  constructor computes, a leaf has no wall, and the children of a node are its two
  halves, along a wall strictly between two of its sides.
\<close>

definition inBounds :: "nat \<Rightarrow> nat \<Rightarrow> node \<Rightarrow> bool" where
  "inBounds w h n \<longleftrightarrow>
     0 \<le> xMin_of n \<and> xMin_of n \<le> xMax_of n \<and> xMax_of n \<le> int w - 1 \<and>
     0 \<le> yMin_of n \<and> yMin_of n \<le> yMax_of n \<and> yMax_of n \<le> int h - 1"

definition flagsOk :: "node \<Rightarrow> bool" where
  "flagsOk n \<longleftrightarrow>
     basePossible n = ((xMax_of n - xMin_of n) - 2 > 20 \<and> (yMax_of n - yMin_of n) - 2 > 20)"

definition splitH :: "node \<Rightarrow> node \<Rightarrow> node \<Rightarrow> bool" where
  "splitH n l r \<longleftrightarrow>
     shape l = ((xMin_of n, yMin_of n), (xMax_of n, yMax_of l)) \<and>
     shape r = ((xMin_of n, yMax_of l), (xMax_of n, yMax_of n)) \<and>
     yMin_of n < yMax_of l \<and> yMax_of l < yMax_of n \<and>
     wall n = Some (hWall (xMin_of n) (xMax_of n) (yMax_of l))"

definition splitV :: "node \<Rightarrow> node \<Rightarrow> node \<Rightarrow> bool" where
  "splitV n l r \<longleftrightarrow>
     shape l = ((xMin_of n, yMin_of n), (xMax_of l, yMax_of n)) \<and>
     shape r = ((xMax_of l, yMin_of n), (xMax_of n, yMax_of n)) \<and>
     xMin_of n < xMax_of l \<and> xMax_of l < xMax_of n \<and>
     wall n = Some (vWall (yMin_of n) (yMax_of n) (xMax_of l))"

fun wellFormed :: "nat \<Rightarrow> nat \<Rightarrow> tree \<Rightarrow> bool" where
  "wellFormed w h (Leaf n) \<longleftrightarrow> inBounds w h n \<and> flagsOk n \<and> wall n = None"
| "wellFormed w h (Split n l r) \<longleftrightarrow>
     inBounds w h n \<and> flagsOk n \<and> wellFormed w h l \<and> wellFormed w h r \<and>
     (splitH n (info l) (info r) \<or> splitV n (info l) (info r))"

text \<open>A tree all of whose leaves are \<open>k\<close> splits below the root.\<close>

fun fullDepth :: "nat \<Rightarrow> tree \<Rightarrow> bool" where
  "fullDepth 0 (Leaf n) \<longleftrightarrow> True"
| "fullDepth (Suc k) (Split n l r) \<longleftrightarrow> fullDepth k l \<and> fullDepth k r"
| "fullDepth k t \<longleftrightarrow> False"

text \<open>Every leaf is at least \<open>s\<close> wide and high (measured as \<^verbatim>\<open>splitNode\<close> does).\<close>

definition roomy :: "int \<Rightarrow> tree \<Rightarrow> bool" where
  "roomy s t \<longleftrightarrow>
     list_all (\<lambda>n. s \<le> xMax_of n - xMin_of n \<and> s \<le> yMax_of n - yMin_of n) (leaves t)"

text \<open>The outer ring of a grid of \<open>h\<close> rows of \<open>w\<close> cells, and a grid whose ring is wall.\<close>

definition onRing :: "nat \<Rightarrow> nat \<Rightarrow> coord \<Rightarrow> bool" where
  "onRing w h p \<longleftrightarrow> fst p = 0 \<or> fst p = int w - 1 \<or> snd p = 0 \<or> snd p = int h - 1"

definition ringCells :: "nat \<Rightarrow> nat \<Rightarrow> coord list" where
  "ringCells w h = filter (onRing w h) (baseCells ((0, 0), (int w - 1, int h - 1)))"

definition ringIsWall :: "nat \<Rightarrow> nat \<Rightarrow> grid \<Rightarrow> bool" where
  "ringIsWall w h array \<longleftrightarrow> list_all (\<lambda>p. getCell array p = Inr Wall) (ringCells w h)"

text \<open>
  A position strictly inside a rectangle \<^verbatim>\<open>[[xMin, yMin], [xMax, yMax]]\<close>; two trees with
  the same rooms; a tree whose root and whose two children are split, so that each of
  the four quadrants is a node of its own.
\<close>

definition insideShape :: "coord \<times> coord \<Rightarrow> coord \<Rightarrow> bool" where
  "insideShape s p \<longleftrightarrow>
     fst (fst s) < fst p \<and> fst p < fst (snd s) \<and> snd (fst s) < snd p \<and> snd p < snd (snd s)"

fun sameRooms :: "tree \<Rightarrow> tree \<Rightarrow> bool" where
  "sameRooms (Leaf n) (Leaf n') \<longleftrightarrow> shape n = shape n'"
| "sameRooms (Split n l r) (Split n' l' r') \<longleftrightarrow>
     shape n = shape n' \<and> sameRooms l l' \<and> sameRooms r r'"
| "sameRooms t t' \<longleftrightarrow> False"

fun twoLevels :: "tree \<Rightarrow> bool" where
  "twoLevels (Split n (Split nl ll lr) (Split nr rl rr)) \<longleftrightarrow> True"
| "twoLevels t \<longleftrightarrow> False"

text \<open>
  The width and the height of a node as \<^verbatim>\<open>splitNode\<close> measures them, and the least
  width after \<open>a\<close> splits of the width of the 250 by 200 world and the least height
  after \<open>b\<close> splits of its height: each split leaves at least the margin of 35 percent.
\<close>

definition xSize :: "node \<Rightarrow> int" where "xSize n = xMax_of n - xMin_of n"
definition ySize :: "node \<Rightarrow> int" where "ySize n = yMax_of n - yMin_of n"

definition minWidth :: "nat \<Rightarrow> int" where
  "minWidth a = (if a = 0 then 249 else if a = 1 then 87 else if a = 2 then 30
                 else if a = 3 then 10 else 3)"

definition minHeight :: "nat \<Rightarrow> int" where
  "minHeight b = (if b = 0 then 199 else if b = 1 then 69 else if b = 2 then 24
                  else if b = 3 then 8 else 2)"

text \<open>A node \<open>d\<close> splits below the root of the world: \<open>a\<close> of the width, the others of the height.\<close>

definition sized :: "nat \<Rightarrow> node \<Rightarrow> bool" where
  "sized d n \<longleftrightarrow> (\<exists>a\<le>d. minWidth a \<le> xSize n \<and> minHeight (d - a) \<le> ySize n)"

text \<open>The wall between the two children is at least 15 cells away from both sides it runs along.\<close>

definition wideSplit :: "node \<Rightarrow> node \<Rightarrow> bool" where
  "wideSplit n l \<longleftrightarrow>
     (xMax_of l = xMax_of n \<and> yMin_of n + 15 \<le> yMax_of l \<and> yMax_of l + 15 \<le> yMax_of n) \<or>
     (yMax_of l = yMax_of n \<and> xMin_of n + 15 \<le> xMax_of l \<and> xMax_of l + 15 \<le> xMax_of n)"

text \<open>The end points of the walls of a tree, as \<^verbatim>\<open>setWall\<close> hands them upwards.\<close>

definition wallEnds :: "tree \<Rightarrow> coord list" where
  "wallEnds t = concat (map (\<lambda>n. endPoints (wallCells n)) (nodes t))"

text \<open>
  A tree grown by rounds of \<^verbatim>\<open>splitDepth\<close> in the world of 250 by 200 cells, seen from
  a node \<open>d\<close> splits below the root: the leaves have the sizes of their depth and no
  unusable positions, every split is wide, every split node is at least 2 wide and
  high, and its unusable positions are end points of walls below it.
\<close>

fun grown :: "nat \<Rightarrow> tree \<Rightarrow> bool" where
  "grown d (Leaf n) \<longleftrightarrow> sized d n \<and> unusableWall n = []"
| "grown d (Split n l r) \<longleftrightarrow>
     grown (Suc d) l \<and> grown (Suc d) r \<and> wideSplit n (info l) \<and>
     2 \<le> xSize n \<and> 2 \<le> ySize n \<and>
     set (unusableWall n) \<subseteq> set (wallEnds l) \<union> set (wallEnds r)"

text \<open>Every position of every wall of the tree holds wall in the grid.\<close>

definition wallsPainted :: "grid \<Rightarrow> tree \<Rightarrow> bool" where
  "wallsPainted array t \<longleftrightarrow>
     list_all (\<lambda>n. list_all (\<lambda>p. getCell array p = Inr Wall) (wallCells n)) (nodes t)"

chapter \<open>Properties\<close>

section \<open>The outside flag of a node\<close>

lemma length_createEmptyWorld: "length createEmptyWorld = 200"
  by (simp add: createEmptyWorld_def emptyWorld_def)

lemma rowLen_createEmptyWorld: "rowLen createEmptyWorld = Inr 250"
proof -
  have "[0..<200::nat] = 0 # [1..<200]" by (simp add: upt_conv_Cons)
  then show ?thesis by (simp add: rowLen_def createEmptyWorld_def emptyWorld_def)
qed

lemma node_init_outside:
  assumes "node_init xMin xMax yMin yMax array = Inr n" and "rowLen array = Inr w"
  shows "outside n \<longleftrightarrow> xMin = 0 \<or> yMin = 0 \<or> xMax = w - 1 \<or> yMax = int (length array)"
  using assms by (auto simp: node_init_def Let_def split: if_splits)

text \<open>
  Claim C5. The claim: on the 250 x 200 grid a node is flagged outside exactly when its
  rectangle touches the grid edge (\<open>xMin = 0\<close>, \<open>yMin = 0\<close>, \<open>xMax = 249\<close> or
  \<open>yMax = 199\<close>). The constructor compares \<open>yMax\<close> with \<^verbatim>\<open>len(array)\<close>, which is 200,
  where it compares \<open>xMax\<close> with \<^verbatim>\<open>len(array[0]) - 1\<close>: the node with bounds
  \<open>xMin = 100\<close>, \<open>xMax = 175\<close>, \<open>yMin = 100\<close>, \<open>yMax = 199\<close> lies on the bottom edge of the
  grid and is not flagged.
\<close>

theorem node_init_bottom_edge_not_outside:
  "map_sum id outside (node_init 100 175 100 199 createEmptyWorld) = Inr False"
  by (simp add: node_init_def Let_def rowLen_createEmptyWorld length_createEmptyWorld)

section \<open>Cells of the grid\<close>

lemma py_index_nonneg: "0 \<le> i \<Longrightarrow> i < int n \<Longrightarrow> py_index n i = Some (nat i)"
  by (simp add: py_index_def)

lemma getCell_inGrid:
  "inGrid array p \<Longrightarrow> getCell array p = Inr (array ! nat (snd p) ! nat (fst p))"
  by (simp add: inGrid_def getCell_def py_index_nonneg)

lemma setCell_inGrid:
  "inGrid array p \<Longrightarrow>
   setCell array p v = Inr (array[nat (snd p) := (array ! nat (snd p))[nat (fst p) := v]])"
  by (simp add: inGrid_def setCell_def py_index_nonneg)

lemma inGrid_same_dims:
  assumes "map length a = map length b"
  shows "inGrid a p = inGrid b p"
proof -
  have len: "length a = length b" using assms by (metis length_map)
  have "\<And>j. j < length a \<Longrightarrow> length (a ! j) = length (b ! j)"
    using assms len by (metis nth_map)
  then show ?thesis
    using len by (auto simp: inGrid_def)
qed

lemma setCell_dims:
  assumes "setCell array p v = Inr a'"
  shows "map length a' = map length array"
proof -
  from assms obtain j i where a': "a' = array[j := (array ! j)[i := v]]"
    by (auto simp: setCell_def split: option.splits)
  show ?thesis
    unfolding a' by (cases "j < length array") (simp_all add: map_update list_update_same_conv list_update_beyond)
qed

lemma getCell_setCell:
  assumes "inGrid array p" "inGrid array q"
  shows "\<exists>a'. setCell array p v = Inr a' \<and> getCell a' q = (if q = p then Inr v else getCell array q)"
proof -
  let ?a = "array[nat (snd p) := (array ! nat (snd p))[nat (fst p) := v]]"
  have s: "setCell array p v = Inr ?a" using assms(1) by (rule setCell_inGrid)
  have d: "map length ?a = map length array" using s by (rule setCell_dims)
  have q': "inGrid ?a q" using assms(2) inGrid_same_dims[OF d] by simp
  have "getCell ?a q = (if q = p then Inr v else getCell array q)"
    using assms q' 
    by (auto simp: getCell_inGrid inGrid_def nth_list_update prod_eq_iff)
  then show ?thesis using s by simp
qed

lemma setCells_frame:
  assumes "list_all (inGrid array) ps"
  shows "\<exists>a'. setCells v ps array = Inr a' \<and> map length a' = map length array \<and>
           (\<forall>q. inGrid array q \<longrightarrow>
                 getCell a' q = (if q \<in> set ps then Inr v else getCell array q))"
  using assms
proof (induction ps arbitrary: array)
  case Nil
  then show ?case by simp
next
  case (Cons p ps)
  from Cons.prems have p: "inGrid array p" and ps: "list_all (inGrid array) ps" by simp_all
  obtain a1 where a1: "setCell array p v = Inr a1"
    using setCell_inGrid[OF p] by blast
  have d1: "map length a1 = map length array" using a1 by (rule setCell_dims)
  have g1: "\<And>q. inGrid array q \<Longrightarrow> getCell a1 q = (if q = p then Inr v else getCell array q)"
    using getCell_setCell[OF p, of _ v] a1 by auto
  have "list_all (inGrid a1) ps"
    using ps inGrid_same_dims[OF d1] by (simp add: list_all_iff)
  from Cons.IH[OF this] obtain a' where a': "setCells v ps a1 = Inr a'"
    and d': "map length a' = map length a1"
    and g': "\<And>q. inGrid a1 q \<Longrightarrow> getCell a' q = (if q \<in> set ps then Inr v else getCell a1 q)"
    by blast
  have "setCells v (p # ps) array = Inr a'" using a1 a' by simp
  moreover have "map length a' = map length array" using d' d1 by simp
  moreover have "\<forall>q. inGrid array q \<longrightarrow>
                 getCell a' q = (if q \<in> set (p # ps) then Inr v else getCell array q)"
    using g' g1 inGrid_same_dims[OF d1] by auto
  ultimately show ?case by blast
qed

lemma carves_refl: "carves array [] array"
  by (simp add: carves_def)

lemma carves_trans:
  assumes "carves a cs1 a1" "carves a1 cs2 a2"
  shows "carves a (cs1 @ cs2) a2"
  using assms inGrid_same_dims[of a1 a] unfolding carves_def by auto

lemma carves_inGrid: "carves a cs a' \<Longrightarrow> inGrid a' q = inGrid a q"
  unfolding carves_def by (rule inGrid_same_dims) simp

lemma clearCells_carves:
  "list_all (inGrid array) ps \<Longrightarrow> \<exists>a'. setCells Empty ps array = Inr a' \<and> carves array ps a'"
  using setCells_frame[of array ps Empty] by (auto simp: carves_def)

lemma randint_range:
  assumes "a \<le> b"
  shows "\<exists>v. randint a b rs = Inr (v, \<lambda>n. rs (Suc n)) \<and> a \<le> v \<and> v \<le> b"
proof -
  have "0 \<le> int (rs 0) mod (b - a + 1)"
    using assms by (intro pos_mod_sign) simp
  moreover have "int (rs 0) mod (b - a + 1) < b - a + 1"
    using assms by (intro pos_mod_bound) simp
  ultimately show ?thesis using assms unfolding randint_def by auto
qed

lemma centralCells_eq: "centralCells w = butlast (tl w)"
  by (rule nth_equalityI) (simp_all add: centralCells_def nth_butlast nth_tl)

lemma doorCells_eq:
  assumes "1 \<le> r" "r \<le> int (length w) - 16"
  shows "doorCells w r = take 15 (drop (nat r) w)"
proof -
  have f: "filter (\<lambda>i. int i + r < int (length w)) [0..<15] = [0..<15]"
    using assms by (intro filter_True) auto
  show ?thesis
    unfolding doorCells_def f
    using assms by (intro nth_equalityI) (auto simp: nat_add_distrib add.commute)
qed

lemma door_in_central:
  assumes "1 \<le> r" "r \<le> int (length w) - 16"
  shows "set (take 15 (drop (nat r) w)) \<subseteq> set (centralCells w)"
proof
  fix q assume "q \<in> set (take 15 (drop (nat r) w))"
  then obtain i where i: "i < 15" "q = w ! (nat r + i)"
    using assms by (auto simp: in_set_conv_nth)
  let ?k = "nat r + i - 1"
  have "?k < length (butlast (tl w))" using assms i by auto
  moreover have "butlast (tl w) ! ?k = q"
    using assms i by (simp add: nth_butlast nth_tl)
  ultimately show "q \<in> set (centralCells w)"
    unfolding centralCells_eq by (metis nth_mem)
qed

lemma openDoor_long:
  assumes "length w > 16" "list_all (inGrid array) w"
  shows "\<exists>r a'. openDoor w array rs = Inr (a', \<lambda>n. rs (Suc n)) \<and>
           1 \<le> r \<and> r \<le> int (length w) - 16 \<and>
           carves array (take 15 (drop (nat r) w)) a'"
proof -
  obtain r where r: "randint 1 (int (length w) - 16) rs = Inr (r, \<lambda>n. rs (Suc n))"
    "1 \<le> r" "r \<le> int (length w) - 16"
    using randint_range[of 1 "int (length w) - 16" rs] assms(1) by auto
  have "list_all (inGrid array) (take 15 (drop (nat r) w))"
    using assms(2) by (auto simp: list_all_iff dest: in_set_takeD in_set_dropD)
  then obtain a' where "setCells Empty (take 15 (drop (nat r) w)) array = Inr a'"
    "carves array (take 15 (drop (nat r) w)) a'"
    using clearCells_carves by blast
  then show ?thesis
    using r assms(1) by (auto simp: openDoor_def doorCells_eq)
qed

lemma openDoor_short:
  assumes "length w \<le> 16" "list_all (inGrid array) w"
  shows "\<exists>a'. openDoor w array rs = Inr (a', rs) \<and> carves array (centralCells w) a'"
proof -
  have "list_all (inGrid array) (centralCells w)"
    using assms(2) unfolding centralCells_eq
    by (cases w) (auto simp: list_all_iff dest!: in_set_butlastD)
  then obtain a' where "setCells Empty (centralCells w) array = Inr a'"
    "carves array (centralCells w) a'"
    using clearCells_carves by blast
  then show ?thesis using assms(1) by (auto simp: openDoor_def)
qed

lemma openDoor_carves:
  assumes "list_all (inGrid array) w"
  shows "\<exists>a' rs' cs. openDoor w array rs = Inr (a', rs') \<and> carves array cs a' \<and>
           set cs \<subseteq> set (centralCells w) \<and> (3 \<le> length w \<longrightarrow> cs \<noteq> [])"
proof (cases "length w > 16")
  case True
  from openDoor_long[OF True assms, of rs] obtain r a' where
    o: "openDoor w array rs = Inr (a', \<lambda>n. rs (Suc n))" and r: "1 \<le> r" "r \<le> int (length w) - 16"
    and c: "carves array (take 15 (drop (nat r) w)) a'" by blast
  have "take 15 (drop (nat r) w) \<noteq> []" using r True by auto
  then show ?thesis using o c door_in_central[OF r] by blast
next
  case False
  then have le: "length w \<le> 16" by simp
  from openDoor_short[OF le assms, of rs] obtain a' where
    o: "openDoor w array rs = Inr (a', rs)" and c: "carves array (centralCells w) a'" by blast
  have "3 \<le> length w \<longrightarrow> centralCells w \<noteq> []"
    unfolding centralCells_eq by (cases w) (auto simp: butlast_conv_take)
  then show ?thesis using o c by blast
qed


lemma splitParts_sublists:
  "part \<in> set (splitParts u rest cur acc) \<Longrightarrow>
   part \<in> set acc \<or> (part \<noteq> [] \<and> (\<exists>ps ss. cur @ rest = ps @ part @ ss))"
proof (induction rest arbitrary: cur acc)
  case Nil
  then consider "part \<in> set acc" | "cur \<noteq> []" "part = cur"
    by (auto split: if_splits)
  then show ?case
  proof cases
    case 1 then show ?thesis by simp
  next
    case 2
    then have "cur @ [] = [] @ part @ []" by simp
    with 2 show ?thesis by blast
  qed
next
  case (Cons p rest)
  show ?case
  proof (cases "p \<notin> set u")
    case True
    with Cons.prems have "part \<in> set (splitParts u rest (cur @ [p]) acc)" by simp
    from Cons.IH[OF this] show ?thesis by auto
  next
    case False
    show ?thesis
    proof (cases "cur = []")
      case True
      with False Cons.prems have "part \<in> set (splitParts u rest [] acc)" by simp
      from Cons.IH[OF this] show ?thesis
      proof
        assume "part \<in> set acc" then show ?thesis by simp
      next
        assume "part \<noteq> [] \<and> (\<exists>ps ss. [] @ rest = ps @ part @ ss)"
        then obtain ps ss where "part \<noteq> []" "rest = ps @ part @ ss" by auto
        then have "cur @ p # rest = (p # ps) @ part @ ss" using True by simp
        with \<open>part \<noteq> []\<close> show ?thesis by blast
      qed
    next
      case nonempty: False
      with False Cons.prems have "part \<in> set (splitParts u rest [] (acc @ [cur]))" by simp
      from Cons.IH[OF this] show ?thesis
      proof
        assume "part \<in> set (acc @ [cur])"
        then consider "part \<in> set acc" | "part = cur" by auto
        then show ?thesis
        proof cases
          case 1 then show ?thesis by simp
        next
          case 2
          then have "cur @ p # rest = [] @ part @ (p # rest)" by simp
          with 2 nonempty show ?thesis by blast
        qed
      next
        assume "part \<noteq> [] \<and> (\<exists>ps ss. [] @ rest = ps @ part @ ss)"
        then obtain ps ss where "part \<noteq> []" "rest = ps @ part @ ss" by auto
        then have "cur @ p # rest = (cur @ p # ps) @ part @ ss" by simp
        with \<open>part \<noteq> []\<close> show ?thesis by blast
      qed
    qed
  qed
qed

lemma partsOfWall_sublist:
  assumes "part \<in> set (partsOfWall w u)"
  shows "part \<noteq> [] \<and> (\<exists>ps ss. w = ps @ part @ ss)"
  using splitParts_sublists[of part u w "[]" "[]"] assms by (simp add: partsOfWall_def)

lemma central_of_sublist:
  "set (centralCells part) \<subseteq> set (centralCells (ps @ part @ ss))"
proof
  fix q assume "q \<in> set (centralCells part)"
  then obtain i where i0: "i < length (butlast (tl part))" "butlast (tl part) ! i = q"
    unfolding centralCells_eq in_set_conv_nth by blast
  then have i: "i < length part - 2" "q = part ! (i + 1)"
    by (simp_all add: nth_butlast nth_tl)
  let ?w = "ps @ part @ ss"
  let ?k = "length ps + i"
  have k: "?k < length (butlast (tl ?w))" using i by auto
  have "butlast (tl ?w) ! ?k = ?w ! (length ps + (i + 1))"
    using i by (simp add: nth_butlast nth_tl)
  also have "\<dots> = q" using i by (auto simp: nth_append)
  finally show "q \<in> set (centralCells ?w)"
    unfolding centralCells_eq using k by (metis nth_mem)
qed

lemma partsOfWall_props:
  assumes "part \<in> set (partsOfWall w u)"
  shows "part \<noteq> []" "set part \<subseteq> set w" "set (centralCells part) \<subseteq> set (centralCells w)"
    "distinct w \<Longrightarrow> distinct part"
proof -
  from partsOfWall_sublist[OF assms] obtain ps ss where
    ne: "part \<noteq> []" and w: "w = ps @ part @ ss" by blast
  show "part \<noteq> []" by (rule ne)
  show "set part \<subseteq> set w" using w by auto
  show "set (centralCells part) \<subseteq> set (centralCells w)"
    unfolding w by (rule central_of_sublist)
  show "distinct w \<Longrightarrow> distinct part" using w by auto
qed

lemma selectLoop_mem:
  "selectLoop parts is l sel = sel \<or> (\<exists>i\<in>set is. selectLoop parts is l sel = int i)"
proof (induction "is" arbitrary: l sel)
  case Nil
  show ?case by simp
next
  case (Cons i "is")
  show ?case
  proof (cases "int (length (parts ! i)) > l")
    case True
    then have "selectLoop parts (i # is) l sel = selectLoop parts is (int (length parts)) (int i)"
      by simp
    with Cons.IH[of "int (length parts)" "int i"] show ?thesis by auto
  next
    case False
    then have "selectLoop parts (i # is) l sel = selectLoop parts is l sel" by simp
    with Cons.IH[of l sel] show ?thesis by auto
  qed
qed

lemma selectPart_range:
  assumes "parts \<noteq> []"
  shows "0 \<le> selectPart parts \<and> selectPart parts < int (length parts)"
proof -
  have u: "[0..<length parts] = 0 # [1..<length parts]"
    using assms by (simp add: upt_conv_Cons)
  have "selectPart parts = selectLoop parts [1..<length parts] (int (length parts)) 0"
    unfolding selectPart_def u by simp
  then show ?thesis
    using selectLoop_mem[of parts "[1..<length parts]" "int (length parts)" 0] assms
    by auto
qed

lemma selectPart_empty: "selectPart [] = -1"
  by (simp add: selectPart_def)

section \<open>Doors stay inside the wall\<close>

lemma carves_list_all:
  "carves a cs a' \<Longrightarrow> list_all (inGrid a') w = list_all (inGrid a) w"
  by (simp add: list_all_iff carves_inGrid)

lemma extraDoors_carves:
  assumes "\<forall>i\<in>set is. i < length lp"
    and "\<forall>part\<in>set lp. list_all (inGrid array) part \<and> set (centralCells part) \<subseteq> S"
  shows "\<exists>a' rs' cs. extraDoors lp w1 is array rs = Inr (a', rs') \<and> carves array cs a' \<and> set cs \<subseteq> S"
  using assms
proof (induction "is" arbitrary: array rs)
  case Nil
  then show ?case using carves_refl by fastforce
next
  case (Cons i "is")
  obtain c where c: "randint 0 2 rs = Inr (c, \<lambda>n. rs (Suc n))"
    using randint_range[of 0 2 rs] by auto
  let ?rs1 = "\<lambda>n. rs (Suc n)"
  show ?case
  proof (cases "c = 0 \<and> int i \<noteq> w1")
    case False
    from Cons.IH[of array ?rs1] Cons.prems obtain a' rs' cs where
      "extraDoors lp w1 is array ?rs1 = Inr (a', rs')" "carves array cs a'" "set cs \<subseteq> S"
      by auto
    then show ?thesis using c False by auto
  next
    case True
    have i: "i < length lp" using Cons.prems(1) by simp
    then have pi: "list_all (inGrid array) (lp ! i)" "set (centralCells (lp ! i)) \<subseteq> S"
      using Cons.prems(2) by (auto simp: all_set_conv_all_nth)
    from openDoor_carves[OF pi(1), of ?rs1] obtain a1 rs2 cs1 where
      o: "openDoor (lp ! i) array ?rs1 = Inr (a1, rs2)" and c1: "carves array cs1 a1"
      and s1: "set cs1 \<subseteq> set (centralCells (lp ! i))" by blast
    have "\<forall>part\<in>set lp. list_all (inGrid a1) part \<and> set (centralCells part) \<subseteq> S"
      using Cons.prems(2) carves_list_all[OF c1] by simp
    from Cons.IH[OF _ this, of rs2] Cons.prems(1) obtain a' rs' cs where
      e: "extraDoors lp w1 is a1 rs2 = Inr (a', rs')" and c2: "carves a1 cs a'" and s2: "set cs \<subseteq> S"
      by auto
    have "extraDoors lp w1 (i # is) array rs = Inr (a', rs')"
      using c True o e by simp
    moreover have "carves array (cs1 @ cs) a'" using c1 c2 by (rule carves_trans)
    moreover have "set (cs1 @ cs) \<subseteq> S" using s1 s2 pi(2) by auto
    ultimately show ?thesis by blast
  qed
qed

lemma addDoorToWall_carves:
  assumes "list_all (inGrid array) w"
  shows "\<exists>a' rs' cs. addDoorToWall w u array rs = Inr (a', rs') \<and> carves array cs a' \<and>
           set cs \<subseteq> set (centralCells w) \<and> (doorFits w u \<longrightarrow> cs \<noteq> [])"
proof -
  let ?parts = "partsOfWall w u"
  let ?lp = "largePartsOf ?parts"
  have parts: "\<forall>part\<in>set ?parts. list_all (inGrid array) part \<and>
      set (centralCells part) \<subseteq> set (centralCells w)"
    using partsOfWall_props(2,3)[of _ w u] assms unfolding list_all_iff by blast
  have lsub: "set ?lp \<subseteq> set ?parts" by (auto simp: largePartsOf_def)
  show ?thesis
  proof (cases "length ?lp > 0")
    case True
    obtain w1 where w1: "randint 0 (int (length ?lp) - 1) rs = Inr (w1, \<lambda>n. rs (Suc n))"
      "0 \<le> w1" "w1 \<le> int (length ?lp) - 1"
      using randint_range[of 0 "int (length ?lp) - 1" rs] True by auto
    let ?rs1 = "\<lambda>n. rs (Suc n)"
    have mem: "?lp ! nat w1 \<in> set ?lp" using w1 True by (intro nth_mem) auto
    then have p1: "list_all (inGrid array) (?lp ! nat w1)"
      "set (centralCells (?lp ! nat w1)) \<subseteq> set (centralCells w)"
      using parts lsub by auto
    have "15 \<le> length (?lp ! nat w1)" using mem by (simp add: largePartsOf_def)
    then have len: "3 \<le> length (?lp ! nat w1)" by simp
    from openDoor_carves[OF p1(1), of ?rs1] len obtain a1 rs2 cs1 where
      o: "openDoor (?lp ! nat w1) array ?rs1 = Inr (a1, rs2)" and c1: "carves array cs1 a1"
      and s1: "set cs1 \<subseteq> set (centralCells (?lp ! nat w1))" and ne: "cs1 \<noteq> []" by blast
    have "\<forall>part\<in>set ?lp. list_all (inGrid a1) part \<and> set (centralCells part) \<subseteq> set (centralCells w)"
      using parts lsub carves_list_all[OF c1] by auto
    from extraDoors_carves[OF _ this, of "[0..<length ?lp]" w1 rs2] obtain a' rs' cs where
      e: "extraDoors ?lp w1 [0..<length ?lp] a1 rs2 = Inr (a', rs')" and c2: "carves a1 cs a'"
      and s2: "set cs \<subseteq> set (centralCells w)" by auto
    have "addDoorToWall w u array rs = Inr (a', rs')"
      using True w1(1) o e by (simp add: addDoorToWall_def Let_def)
    moreover have "carves array (cs1 @ cs) a'" using c1 c2 by (rule carves_trans)
    moreover have "set (cs1 @ cs) \<subseteq> set (centralCells w)" using s1 s2 p1(2) by auto
    moreover have "cs1 @ cs \<noteq> []" using ne by simp
    ultimately show ?thesis by blast
  next
    case False
    then have nolarge: "?lp = []" by simp
    show ?thesis
    proof (cases "?parts = []")
      case True
      then have "addDoorToWall w u array rs = Inr (array, rs)"
        using False by (simp add: addDoorToWall_def Let_def selectPart_empty)
      moreover have "\<not> doorFits w u" using True by (simp add: doorFits_def largePartsOf_def)
      ultimately show ?thesis using carves_refl[of array] by fastforce
    next
      case ne: False
      let ?sel = "selectPart ?parts"
      have sel: "0 \<le> ?sel" "?sel < int (length ?parts)" using selectPart_range[OF ne] by auto
      then have mem: "?parts ! nat ?sel \<in> set ?parts" by (intro nth_mem) auto
      then have p1: "list_all (inGrid array) (?parts ! nat ?sel)"
        "set (centralCells (?parts ! nat ?sel)) \<subseteq> set (centralCells w)"
        using parts by auto
      from openDoor_carves[OF p1(1), of rs] obtain a' rs' cs where
        o: "openDoor (?parts ! nat ?sel) array rs = Inr (a', rs')" and c: "carves array cs a'"
        and s: "set cs \<subseteq> set (centralCells (?parts ! nat ?sel))"
        and l: "3 \<le> length (?parts ! nat ?sel) \<longrightarrow> cs \<noteq> []" by blast
      have "addDoorToWall w u array rs = Inr (a', rs')"
        using False sel o by (simp add: addDoorToWall_def Let_def)
      moreover have "set cs \<subseteq> set (centralCells w)" using s p1(2) by auto
      moreover have "doorFits w u \<longrightarrow> cs \<noteq> []"
        using l mem nolarge by (auto simp: doorFits_def list_all_iff)
      ultimately show ?thesis using c by blast
    qed
  qed
qed

lemma nonempty_subset_meets: "cs \<noteq> [] \<Longrightarrow> set cs \<subseteq> A \<Longrightarrow> set cs \<inter> A \<noteq> {}"
  by (cases cs) auto

lemma addDoorsHere_carves:
  assumes "list_all (inGrid array) (wallCells n)"
  shows "\<exists>a' rs' cs. addDoorsHere n array rs = Inr (a', rs') \<and> carves array cs a' \<and>
           set cs \<subseteq> set (wallInterior n) \<and>
           (\<forall>w. wall n = Some w \<longrightarrow> doorFits w (unusableWall n) \<longrightarrow> cs \<noteq> [])"
proof (cases "wall n")
  case None
  then show ?thesis using carves_refl[of array] by (fastforce simp: addDoorsHere_def)
next
  case (Some w)
  then have "list_all (inGrid array) w" using assms by (simp add: wallCells_def)
  from addDoorToWall_carves[OF this, of "unusableWall n" rs] show ?thesis
    using Some by (simp add: addDoorsHere_def wallInterior_def)
qed

lemma wallsInGrid_carves:
  "carves a cs a' \<Longrightarrow> wallsInGrid a' t = wallsInGrid a t"
  by (simp add: wallsInGrid_def carves_list_all)

lemma addDoors_carves:
  assumes "wallsInGrid array t"
  shows "\<exists>a' rs' cs. addDoors t array rs = Inr (a', rs') \<and> carves array cs a' \<and>
           set cs \<subseteq> (\<Union>n\<in>set (nodes t). set (wallInterior n)) \<and>
           (\<forall>n\<in>set (nodes t). \<forall>w. wall n = Some w \<longrightarrow> doorFits w (unusableWall n) \<longrightarrow>
               set cs \<inter> set (centralCells w) \<noteq> {})"
  using assms
proof (induction t arbitrary: array rs)
  case (Leaf n)
  then have "list_all (inGrid array) (wallCells n)" by (simp add: wallsInGrid_def)
  from addDoorsHere_carves[OF this, of rs] obtain a' rs' cs where
    h: "addDoorsHere n array rs = Inr (a', rs')" "carves array cs a'"
       "set cs \<subseteq> set (wallInterior n)"
       "\<forall>w. wall n = Some w \<longrightarrow> doorFits w (unusableWall n) \<longrightarrow> cs \<noteq> []" by blast
  have "\<forall>w. wall n = Some w \<longrightarrow> doorFits w (unusableWall n) \<longrightarrow> set cs \<inter> set (centralCells w) \<noteq> {}"
    using h(3,4) nonempty_subset_meets[of cs] by (auto simp: wallInterior_def)
  then show ?case using h(1,2,3) by fastforce
next
  case (Split n l r)
  from Split.prems have wl: "wallsInGrid array l" and wr: "wallsInGrid array r"
    and wn: "list_all (inGrid array) (wallCells n)" by (simp_all add: wallsInGrid_def)
  from Split.IH(1)[OF wl, of rs] obtain a1 rs1 cs1 where
    l: "addDoors l array rs = Inr (a1, rs1)" "carves array cs1 a1"
       "set cs1 \<subseteq> (\<Union>n\<in>set (nodes l). set (wallInterior n))"
       "\<forall>n\<in>set (nodes l). \<forall>w. wall n = Some w \<longrightarrow> doorFits w (unusableWall n) \<longrightarrow>
               set cs1 \<inter> set (centralCells w) \<noteq> {}" by blast
  have "wallsInGrid a1 r" using wr wallsInGrid_carves[OF l(2)] by simp
  from Split.IH(2)[OF this, of rs1] obtain a2 rs2 cs2 where
    r: "addDoors r a1 rs1 = Inr (a2, rs2)" "carves a1 cs2 a2"
       "set cs2 \<subseteq> (\<Union>n\<in>set (nodes r). set (wallInterior n))"
       "\<forall>n\<in>set (nodes r). \<forall>w. wall n = Some w \<longrightarrow> doorFits w (unusableWall n) \<longrightarrow>
               set cs2 \<inter> set (centralCells w) \<noteq> {}" by blast
  have c12: "carves array (cs1 @ cs2) a2" using l(2) r(2) by (rule carves_trans)
  have "list_all (inGrid a2) (wallCells n)" using wn carves_list_all[OF c12] by simp
  from addDoorsHere_carves[OF this, of rs2] obtain a' rs' cs3 where
    h: "addDoorsHere n a2 rs2 = Inr (a', rs')" "carves a2 cs3 a'"
       "set cs3 \<subseteq> set (wallInterior n)"
       "\<forall>w. wall n = Some w \<longrightarrow> doorFits w (unusableWall n) \<longrightarrow> cs3 \<noteq> []" by blast
  let ?cs = "(cs1 @ cs2) @ cs3"
  have "addDoors (Split n l r) array rs = Inr (a', rs')" using l(1) r(1) h(1) by simp
  moreover have "carves array ?cs a'" using c12 h(2) by (rule carves_trans)
  moreover have "set ?cs \<subseteq> (\<Union>n\<in>set (nodes (Split n l r)). set (wallInterior n))"
    using l(3) r(3) h(3) by auto
  moreover have "\<forall>m\<in>set (nodes (Split n l r)). \<forall>w. wall m = Some w \<longrightarrow>
      doorFits w (unusableWall m) \<longrightarrow> set ?cs \<inter> set (centralCells w) \<noteq> {}"
  proof (intro ballI allI impI)
    fix m w assume m: "m \<in> set (nodes (Split n l r))" "wall m = Some w" "doorFits w (unusableWall m)"
    from m(1) consider "m = n" | "m \<in> set (nodes l)" | "m \<in> set (nodes r)" by auto
    then show "set ?cs \<inter> set (centralCells w) \<noteq> {}"
    proof cases
      case 1
      then have "cs3 \<noteq> []" "set cs3 \<subseteq> set (centralCells w)"
        using h(3,4) m(2,3) by (auto simp: wallInterior_def)
      then show ?thesis by (cases cs3) auto
    next
      case 2
      with l(4) m(2,3) show ?thesis by fastforce
    next
      case 3
      with r(4) m(2,3) show ?thesis by fastforce
    qed
  qed
  ultimately show ?case by blast
qed

section \<open>What a door changes\<close>

lemma carves_get:
  "carves a cs a' \<Longrightarrow> inGrid a q \<Longrightarrow>
   getCell a' q = (if q \<in> set cs then Inr Empty else getCell a q)"
  unfolding carves_def by blast

lemma distinct_ends_not_central:
  assumes "distinct w" "w \<noteq> []"
  shows "hd w \<notin> set (centralCells w)" "last w \<notin> set (centralCells w)"
proof -
  have "hd w \<notin> set (tl w)" using assms by (cases w) auto
  then show "hd w \<notin> set (centralCells w)"
    unfolding centralCells_eq by (auto dest: in_set_butlastD)
  have "last w \<notin> set (butlast w)"
    using assms by (metis append_butlast_last_id distinct_butlast not_distinct_conv_prefix
        distinct_append disjoint_iff list.set_intros(1) distinct.simps(2) snoc_eq_iff_butlast)
  then show "last w \<notin> set (centralCells w)"
    unfolding centralCells_eq butlast_tl by (cases "butlast w") auto
qed

lemma central_subset: "set (centralCells w) \<subseteq> set w"
  unfolding centralCells_eq by (cases w) (auto dest: in_set_butlastD)

text \<open>
  Claim C10. For every call \<^verbatim>\<open>openDoor(wall, array)\<close> on a wall of distinct positions
  inside the grid, as \<^verbatim>\<open>splitNode\<close> and \<^verbatim>\<open>addDoorToWall\<close> build them: the call
  succeeds, a cell that changes has its position in the wall list and is empty
  afterwards, and the cells at the first and at the last position of the wall list keep
  what they held, whatever the length of the wall.
\<close>

theorem openDoor_frame:
  assumes "list_all (inGrid array) w" and "distinct w"
  shows "\<exists>array' rs'. openDoor w array rs = Inr (array', rs') \<and>
     (\<forall>q. inGrid array q \<longrightarrow> getCell array' q \<noteq> getCell array q \<longrightarrow>
           q \<in> set w \<and> getCell array' q = Inr Empty) \<and>
     (w \<noteq> [] \<longrightarrow> getCell array' (hd w) = getCell array (hd w) \<and>
                 getCell array' (last w) = getCell array (last w))"
proof -
  from openDoor_carves[OF assms(1), of rs] obtain a' rs' cs where
    o: "openDoor w array rs = Inr (a', rs')" and c: "carves array cs a'"
    and s: "set cs \<subseteq> set (centralCells w)" by blast
  have frame: "\<And>q. inGrid array q \<Longrightarrow>
      getCell a' q = (if q \<in> set cs then Inr Empty else getCell array q)"
    using c unfolding carves_def by blast
  have 1: "\<forall>q. inGrid array q \<longrightarrow> getCell a' q \<noteq> getCell array q \<longrightarrow>
           q \<in> set w \<and> getCell a' q = Inr Empty"
    using frame s central_subset[of w] by (auto split: if_splits)
  have 2: "w \<noteq> [] \<longrightarrow> getCell a' (hd w) = getCell array (hd w) \<and>
                 getCell a' (last w) = getCell array (last w)"
  proof
    assume ne: "w \<noteq> []"
    then have "inGrid array (hd w)" "inGrid array (last w)"
      using assms(1) by (auto simp: list_all_iff)
    moreover have "hd w \<notin> set cs" "last w \<notin> set cs"
      using distinct_ends_not_central[OF assms(2) ne] s by auto
    ultimately show "getCell a' (hd w) = getCell array (hd w) \<and>
                 getCell a' (last w) = getCell array (last w)"
      using frame by simp
  qed
  show ?thesis using o 1 2 by blast
qed

text \<open>An instance: a wall of 20 positions in a row of wall cells.\<close>

theorem openDoor_frame_witness:
  "list_all (inGrid (wallGrid 20 1)) (hWall 0 19 0) \<and> distinct (hWall 0 19 0) \<and>
   (\<exists>array' rs'. openDoor (hWall 0 19 0) (wallGrid 20 1) zeroSupply = Inr (array', rs') \<and>
     (\<forall>q. inGrid (wallGrid 20 1) q \<longrightarrow> getCell array' q \<noteq> getCell (wallGrid 20 1) q \<longrightarrow>
           q \<in> set (hWall 0 19 0) \<and> getCell array' q = Inr Empty) \<and>
     (hWall 0 19 0 \<noteq> [] \<longrightarrow>
        getCell array' (hd (hWall 0 19 0)) = getCell (wallGrid 20 1) (hd (hWall 0 19 0)) \<and>
        getCell array' (last (hWall 0 19 0)) = getCell (wallGrid 20 1) (last (hWall 0 19 0)))) \<and>
   map_sum id fst (openDoor (hWall 0 19 0) (wallGrid 20 1) zeroSupply)
     = Inr [Wall # replicate 15 Empty @ replicate 4 Wall]"
proof -
  have h1: "list_all (inGrid (wallGrid 20 1)) (hWall 0 19 0)" by code_simp
  have h2: "distinct (hWall 0 19 0)" by code_simp
  have h3: "map_sum id fst (openDoor (hWall 0 19 0) (wallGrid 20 1) zeroSupply)
     = Inr [Wall # replicate 15 Empty @ replicate 4 Wall]" by code_simp
  show ?thesis using openDoor_frame[OF h1 h2, of zeroSupply] h1 h2 h3 by blast
qed

section \<open>The size of a door\<close>

text \<open>
  Claim C3, as stated, fails: a part of 15 positions counts as large
  (\<^verbatim>\<open>len(wallParts[i]) >= 15\<close>), but \<^verbatim>\<open>openDoor\<close> cuts a door of 15 cells only into a
  wall of more than 16 positions. The part of 15 gets every cell but its two ends
  cleared, 13 cells.
\<close>

theorem large_part_of_15_gets_13_cells:
  "largePartsOf (partsOfWall (hWall 0 14 0) []) = [hWall 0 14 0] \<and>
   map_sum id fst (addDoorToWall (hWall 0 14 0) [] (wallGrid 15 1) zeroSupply)
     = Inr [Wall # replicate 13 Empty @ [Wall]]"
  by code_simp

text \<open>
  Claim C3, amended. A part of more than 16 positions (distinct, inside the grid)
  that \<^verbatim>\<open>openDoor\<close> receives gets a start offset \<open>r\<close> from 1 to \<open>len - 16\<close> and
  exactly the 15 consecutive cells from offset \<open>r\<close> on are set to empty, all of them
  between the two ends of the part; nothing else changes. A large part of 15 or 16
  positions has its \<open>len - 2\<close> cells between the two ends set to empty instead.
\<close>

theorem openDoor_large_part:
  assumes "list_all (inGrid array) w" and "distinct w" and "15 \<le> length w"
  shows "\<exists>array' rs'. openDoor w array rs = Inr (array', rs') \<and>
    (if 16 < length w
     then \<exists>r. 1 \<le> r \<and> r \<le> int (length w) - 16 \<and>
            card (set (take 15 (drop (nat r) w))) = 15 \<and>
            set (take 15 (drop (nat r) w)) \<subseteq> set (centralCells w) \<and>
            (\<forall>q. inGrid array q \<longrightarrow>
               getCell array' q =
                 (if q \<in> set (take 15 (drop (nat r) w)) then Inr Empty else getCell array q))
     else card (set (centralCells w)) = length w - 2 \<and>
          (\<forall>q. inGrid array q \<longrightarrow>
               getCell array' q =
                 (if q \<in> set (centralCells w) then Inr Empty else getCell array q)))"
proof (cases "16 < length w")
  case True
  from openDoor_long[OF True assms(1), of rs] obtain r a' where
    o: "openDoor w array rs = Inr (a', \<lambda>n. rs (Suc n))" and r: "1 \<le> r" "r \<le> int (length w) - 16"
    and c: "carves array (take 15 (drop (nat r) w)) a'" by blast
  have d: "distinct (take 15 (drop (nat r) w))" using assms(2) by simp
  have "length (take 15 (drop (nat r) w)) = 15" using r True by auto
  then have "card (set (take 15 (drop (nat r) w))) = 15" using distinct_card[OF d] by simp
  moreover have "\<forall>q. inGrid array q \<longrightarrow> getCell a' q =
                 (if q \<in> set (take 15 (drop (nat r) w)) then Inr Empty else getCell array q)"
    using c unfolding carves_def by blast
  ultimately show ?thesis using True o r door_in_central[OF r] by auto
next
  case False
  then have le: "length w \<le> 16" by simp
  from openDoor_short[OF le assms(1), of rs] obtain a' where
    o: "openDoor w array rs = Inr (a', rs)" and c: "carves array (centralCells w) a'" by blast
  have "distinct (centralCells w)"
    unfolding centralCells_eq using assms(2) by (simp add: distinct_butlast distinct_tl)
  then have "card (set (centralCells w)) = length (centralCells w)" by (rule distinct_card)
  also have "\<dots> = length w - 2" by (simp add: centralCells_eq)
  finally have "card (set (centralCells w)) = length w - 2" .
  moreover have "\<forall>q. inGrid array q \<longrightarrow> getCell a' q =
                 (if q \<in> set (centralCells w) then Inr Empty else getCell array q)"
    using c unfolding carves_def by blast
  ultimately show ?thesis using False o by auto
qed

text \<open>An instance: a part of 20 positions.\<close>

theorem openDoor_large_part_witness:
  "list_all (inGrid (wallGrid 20 1)) (hWall 0 19 0) \<and> distinct (hWall 0 19 0) \<and>
   15 \<le> length (hWall 0 19 0) \<and>
   (\<exists>array' rs'. openDoor (hWall 0 19 0) (wallGrid 20 1) zeroSupply = Inr (array', rs') \<and>
     (\<exists>r. 1 \<le> r \<and> r \<le> int (length (hWall 0 19 0)) - 16 \<and>
            card (set (take 15 (drop (nat r) (hWall 0 19 0)))) = 15 \<and>
            set (take 15 (drop (nat r) (hWall 0 19 0))) \<subseteq> set (centralCells (hWall 0 19 0)) \<and>
            (\<forall>q. inGrid (wallGrid 20 1) q \<longrightarrow>
               getCell array' q =
                 (if q \<in> set (take 15 (drop (nat r) (hWall 0 19 0))) then Inr Empty
                  else getCell (wallGrid 20 1) q))))"
proof -
  have h1: "list_all (inGrid (wallGrid 20 1)) (hWall 0 19 0)" by code_simp
  have h2: "distinct (hWall 0 19 0)" by code_simp
  have h3: "15 \<le> length (hWall 0 19 0)" by code_simp
  have h4: "16 < length (hWall 0 19 0)" by code_simp
  show ?thesis using openDoor_large_part[OF h1 h2 h3, of zeroSupply] h1 h2 h3 h4 by auto
qed

section \<open>The part chosen when no part is large\<close>

text \<open>
  Claim C2. The claim: when no part has 15 positions, the part handed to \<^verbatim>\<open>openDoor\<close>
  is the longest one. The loop compares the length of each part with \<^verbatim>\<open>longest\<close>
  but stores \<^verbatim>\<open>len(wallParts)\<close>, the number of parts, in it: the wall of 23 positions
  with the unusable positions 5 and 15 has the parts of 5, 9 and 7 positions, and the
  part selected is the last one, of 7 positions, where the door is cut.
\<close>

theorem selectPart_not_the_longest:
  "map length (partsOfWall (hWall 0 22 0) [(5, 0), (15, 0)]) = [5, 9, 7] \<and>
   largePartsOf (partsOfWall (hWall 0 22 0) [(5, 0), (15, 0)]) = [] \<and>
   selectPart (partsOfWall (hWall 0 22 0) [(5, 0), (15, 0)]) = 2 \<and>
   map_sum id fst (addDoorToWall (hWall 0 22 0) [(5, 0), (15, 0)] (wallGrid 23 1) zeroSupply)
     = Inr [replicate 17 Wall @ replicate 5 Empty @ [Wall]]"
  by code_simp

section \<open>A wall that can take a door gets one\<close>

lemma addDoors_gap:
  assumes "wallsInGrid array t"
  shows "\<exists>array' rs'. addDoors t array rs = Inr (array', rs') \<and>
     (\<forall>n\<in>set (nodes t). \<forall>w. wall n = Some w \<and> doorFits w (unusableWall n) \<longrightarrow>
        (\<exists>p\<in>set w. getCell array' p = Inr Empty))"
proof -
  from addDoors_carves[OF assms, of rs] obtain a' rs' cs where
    o: "addDoors t array rs = Inr (a', rs')" and c: "carves array cs a'"
    and f: "\<forall>n\<in>set (nodes t). \<forall>w. wall n = Some w \<longrightarrow> doorFits w (unusableWall n) \<longrightarrow>
               set cs \<inter> set (centralCells w) \<noteq> {}" by blast
  have "\<forall>n\<in>set (nodes t). \<forall>w. wall n = Some w \<and> doorFits w (unusableWall n) \<longrightarrow>
        (\<exists>p\<in>set w. getCell a' p = Inr Empty)"
  proof (intro ballI allI impI)
    fix n w assume n: "n \<in> set (nodes t)" and w: "wall n = Some w \<and> doorFits w (unusableWall n)"
    with f obtain p where p: "p \<in> set cs" "p \<in> set (centralCells w)" by blast
    then have pw: "p \<in> set w" using central_subset by blast
    have "list_all (inGrid array) w"
      using assms n w by (auto simp: wallsInGrid_def list_all_iff wallCells_def)
    then have "inGrid array p" using pw by (simp add: list_all_iff)
    then have "getCell a' p = Inr Empty" using carves_get[OF c] p(1) by simp
    then show "\<exists>p\<in>set w. getCell a' p = Inr Empty" using pw by blast
  qed
  then show ?thesis using o by blast
qed

section \<open>Base placement without an eligible leaf\<close>

lemma descend_leaf:
  "\<exists>p leaf rs'. descend t rs = Inr (p, leaf, rs') \<and> leaf \<in> set (leaves t) \<and> follow p t = Leaf leaf"
proof (induction t arbitrary: rs)
  case (Leaf n)
  show ?case by simp
next
  case (Split n l r)
  obtain c where c: "randint 0 1 rs = Inr (c, \<lambda>n. rs (Suc n))"
    using randint_range[of 0 1 rs] by auto
  let ?rs1 = "\<lambda>n. rs (Suc n)"
  show ?case
  proof (cases "c = 0")
    case True
    from Split.IH(1)[of ?rs1] obtain p leaf rs' where
      "descend l ?rs1 = Inr (p, leaf, rs')" "leaf \<in> set (leaves l)" "follow p l = Leaf leaf" by blast
    then show ?thesis using c True by auto
  next
    case False
    from Split.IH(2)[of ?rs1] obtain p leaf rs' where
      "descend r ?rs1 = Inr (p, leaf, rs')" "leaf \<in> set (leaves r)" "follow p r = Leaf leaf" by blast
    then show ?thesis using c False by auto
  qed
qed

lemma findLeaf_total:
  assumes "quadrants \<noteq> []"
    and "\<forall>q\<in>set quadrants. \<exists>p t. quadrantNode root q = Inr (p, t)"
  shows "\<exists>rQuad p1 t p2 leaf rs'. findLeaf root quadrants rs = Inr (rQuad, p1 @ p2, leaf, rs') \<and>
           0 \<le> rQuad \<and> rQuad < int (length quadrants) \<and>
           quadrantNode root (quadrants ! nat rQuad) = Inr (p1, t) \<and>
           leaf \<in> set (leaves t) \<and> follow p2 t = Leaf leaf"
proof -
  obtain rQuad where rq: "randint 0 (int (length quadrants) - 1) rs = Inr (rQuad, \<lambda>n. rs (Suc n))"
    "0 \<le> rQuad" "rQuad \<le> int (length quadrants) - 1"
    using randint_range[of 0 "int (length quadrants) - 1" rs] assms(1)
    by (cases quadrants) auto
  then have "quadrants ! nat rQuad \<in> set quadrants" by (intro nth_mem) auto
  with assms(2) obtain p1 t where q: "quadrantNode root (quadrants ! nat rQuad) = Inr (p1, t)"
    by blast
  from descend_leaf[of t "\<lambda>n. rs (Suc n)"] obtain p2 leaf rs' where
    d: "descend t (\<lambda>n. rs (Suc n)) = Inr (p2, leaf, rs')" "leaf \<in> set (leaves t)"
       "follow p2 t = Leaf leaf" by blast
  have "findLeaf root quadrants rs = Inr (rQuad, p1 @ p2, leaf, rs')"
    using rq(1) q d(1) by (simp add: findLeaf_def)
  then show ?thesis using rq q d by force
qed

lemma noEligibleLeaf_quadrant:
  assumes "noEligibleLeaf root quadrants" "q \<in> set quadrants"
  shows "\<exists>p t. quadrantNode root q = Inr (p, t) \<and> (\<forall>n\<in>set (leaves t). \<not> eligible n)"
proof (cases "quadrantNode root q")
  case (Inl e)
  then show ?thesis using assms by (auto simp: noEligibleLeaf_def list_all_iff)
next
  case (Inr pt)
  then show ?thesis using assms by (cases pt) (auto simp: noEligibleLeaf_def list_all_iff)
qed

lemma addBaseLoop_needs_eligible:
  assumes "addBaseLoop root quadrants rs = Some y"
  shows "\<not> (quadrants \<noteq> [] \<and> noEligibleLeaf root quadrants)"
  using assms
proof (induction rule: addBaseLoop.raw_induct[rotated 1, consumes 1])
  case (1 loop root quadrants rs y)
  show ?case
  proof
    assume "quadrants \<noteq> [] \<and> noEligibleLeaf root quadrants"
    then have ne: "quadrants \<noteq> []" and no: "noEligibleLeaf root quadrants" by blast+
    have qs: "\<forall>q\<in>set quadrants. \<exists>p t. quadrantNode root q = Inr (p, t)"
      using noEligibleLeaf_quadrant[OF no] by blast
    from findLeaf_total[OF ne qs, of rs] obtain rQuad p1 t p2 leaf rs' where
      f: "findLeaf root quadrants rs = Inr (rQuad, p1 @ p2, leaf, rs')"
      and r: "0 \<le> rQuad" "rQuad < int (length quadrants)"
      and q: "quadrantNode root (quadrants ! nat rQuad) = Inr (p1, t)"
      and l: "leaf \<in> set (leaves t)" by blast
    have "quadrants ! nat rQuad \<in> set quadrants" using r by (intro nth_mem) auto
    from noEligibleLeaf_quadrant[OF no this] q l have "\<not> eligible leaf" by auto
    then have "loop root quadrants rs' = Some y"
      using "1.hyps" f by (auto simp: eligible_def)
    from "1.IH"[OF this] ne no show False by blast
  qed
qed

lemma addBaseLoop_diverges:
  assumes "quadrants \<noteq> []" and "noEligibleLeaf root quadrants"
  shows "addBaseLoop root quadrants rs = None"
  using addBaseLoop_needs_eligible[of root quadrants rs] assms
  by (cases "addBaseLoop root quadrants rs") auto


lemma addBase_diverges:
  assumes "quadrants \<noteq> []" and "noEligibleLeaf root quadrants"
  shows "addBase root array quadrants rs = None"
  using addBaseLoop_diverges[OF assms, of rs] by (simp add: addBase_def)

text \<open>
  Claim C9, as stated, fails: \<^verbatim>\<open>addBase\<close> has no error for a missing location and no
  bound on its attempts. In the world of 72 by 41 cells only the two quadrants on the
  left can hold a base; once both hold one, the third call, with the two quadrants on
  the right left to choose from, does not return.
\<close>

theorem third_base_attempt_never_returns:
  "addBase twoBasesPlaced (emptyWorld 72 41) [(1, 0), (1, 1)] zeroSupply = None"
proof -
  have "noEligibleLeaf twoBasesPlaced [(1, 0), (1, 1)]" by code_simp
  then show ?thesis by (intro addBase_diverges) simp_all
qed

text \<open>
  Claim C9, amended. When the list of quadrants is not empty and none of them leads to a
  leaf without a base, large enough and on the outside, \<^verbatim>\<open>addBase\<close> neither returns
  nor raises, whatever the random source: it retries forever.
\<close>

theorem addBase_retries_forever:
  assumes "quadrants \<noteq> []" and "noEligibleLeaf root quadrants"
  shows "addBase root array quadrants rs = None"
  using assms by (rule addBase_diverges)

text \<open>An instance: a single room that already holds a base.\<close>

theorem addBase_retries_forever_witness:
  "[(0, 0), (0, 1), (1, 0), (1, 1)] \<noteq> [] \<and>
   noEligibleLeaf (Leaf (mkNode ((0, 0), (24, 24)) None [] True True True))
     [(0, 0), (0, 1), (1, 0), (1, 1)] \<and>
   addBase (Leaf (mkNode ((0, 0), (24, 24)) None [] True True True)) (emptyWorld 25 25)
     [(0, 0), (0, 1), (1, 0), (1, 1)] alternatingSupply = None"
proof -
  have h1: "[(0, 0), (0, 1), (1, 0), (1, 1)] \<noteq> ([] :: (int \<times> int) list)" by simp
  have h2: "noEligibleLeaf (Leaf (mkNode ((0, 0), (24, 24)) None [] True True True))
     [(0, 0), (0, 1), (1, 0), (1, 1)]" by code_simp
  show ?thesis
    using addBase_retries_forever[OF h1 h2, of "emptyWorld 25 25" alternatingSupply] h1 h2
    by blast
qed

section \<open>The cells of a base\<close>













end
